theory Spec2Isabelle
  imports Main "HOL-Library.Word"
begin

section \<open>The parser benchmark driver \<open>swift_parse_test_main.cpp\<close>\<close>

text \<open>
  A shallow embedding of \<^verbatim>\<open>lib/DriverTool/swift_parse_test_main.cpp\<close>: the corpus loader
  (\<^verbatim>\<open>_loadSwiftFilesRecursively\<close>, \<^verbatim>\<open>loadSources\<close>), the timing probe (\<^verbatim>\<open>measure\<close>), the
  per-executor run (\<^verbatim>\<open>perform\<close>) and the driver (\<^verbatim>\<open>swift_parse_test_main\<close>).

  Everything the file reaches outside itself is a parameter of the model: the two clocks,
  the file system, the two parsers and the build configuration.
\<close>

subsection \<open>Data\<close>

text \<open>\<^verbatim>\<open>enum class Executor { SwiftParser, LibParse }\<close>\<close>

datatype Executor = SwiftParser | LibParse

text \<open>\<^verbatim>\<open>enum class ExecuteOptionFlag { SkipBodies = 1 << 0 }\<close>; \<^verbatim>\<open>ExecuteOptions\<close> is
  an \<^verbatim>\<open>OptionSet\<close> of these flags.\<close>

datatype ExecuteOptionFlag = SkipBodies

type_synonym ExecuteOptions = "ExecuteOptionFlag set"

text \<open>The two \<^verbatim>\<open>SourceFile::ParsingFlags\<close> that \<^verbatim>\<open>LibParseExecutor\<close> sets.\<close>

datatype ParsingFlags = DisablePoundIfEvaluation | DisableDelayedBodies

text \<open>The command line after \<^verbatim>\<open>llvm::cl::ParseCommandLineOptions\<close>
  (\<^verbatim>\<open>struct SwiftParseTestOptions\<close>); \<^verbatim>\<open>Iterations\<close> is an \<^verbatim>\<open>unsigned int\<close>.\<close>

record SwiftParseTestOptions =
  Executors :: "Executor list"
  Iterations :: "32 word"
  SkipBodiesOpt :: bool
  InputPaths :: "string list"

text \<open>An \<^verbatim>\<open>llvm::MemoryBuffer\<close>: its identifier and its bytes.\<close>

record buffer =
  getBufferIdentifier :: string
  getBuffer :: string

definition getBufferSize :: "buffer \<Rightarrow> nat" where
  "getBufferSize b = length (getBuffer b)"

text \<open>\<^verbatim>\<open>StringRef::count('\n')\<close>: the number of line feed bytes.\<close>

definition count_newlines :: "buffer \<Rightarrow> nat" where
  "count_newlines b = count_list (getBuffer b) (CHR 0x0A)"

text \<open>An \<^verbatim>\<open>llvm::Error\<close> in the failure state carries a message
  (\<^verbatim>\<open>llvm::createStringError\<close>); the success state is \<open>None\<close> of \<open>error option\<close>.\<close>

datatype error = StringError string

fun message :: "error \<Rightarrow> string" where
  "message (StringError m) = m"

text \<open>
  The environment the program runs in: the value \<^verbatim>\<open>std::clock()\<close> returns now (in ticks),
  the value \<^verbatim>\<open>std::chrono::steady_clock::now()\<close> returns now (in nanoseconds), and whatever
  else the parsers read and write (\<open>hidden\<close>). Reading a clock does not change the
  environment; a parser may change all of it.
\<close>

record 'x env =
  cpu_clock :: int
  steady_clock :: int
  hidden :: 'x

text \<open>
  What is written to \<^verbatim>\<open>llvm::outs()\<close>, one value per line: the constructor stands for the
  format string and carries the argument handed to \<^verbatim>\<open>llvm::format\<close>.
  \<^item> \<open>Dashes\<close>: \<^verbatim>\<open>"----\n"\<close>
  \<^item> \<open>Parser n\<close>: \<^verbatim>\<open>"parser: " << n << "\n"\<close>
  \<^item> \<open>WallClockTimeMs\<close>: \<^verbatim>\<open>"wall clock time (ms): %8d\n"\<close>
  \<^item> \<open>CpuTimeMs\<close>: \<^verbatim>\<open>"cpu time (ms):        %8d\n"\<close>
  \<^item> \<open>ThroughputBytePerSec\<close>: \<^verbatim>\<open>"throughput (byte/s):  %8d\n"\<close>
  \<^item> \<open>ThroughputLinePerSec\<close>: \<^verbatim>\<open>"throughput (line/s):  %8d\n"\<close>
  \<^item> \<open>FileCount\<close>, \<open>TotalBytes\<close>, \<open>TotalLines\<close>, \<open>IterationsLine\<close>: the four lines of
    the preamble.
\<close>

datatype out_line =
    Dashes
  | Parser string
  | WallClockTimeMs int
  | CpuTimeMs int
  | ThroughputBytePerSec "64 word"
  | ThroughputLinePerSec "64 word"
  | FileCount nat
  | TotalBytes "32 word"
  | TotalLines "32 word"
  | IterationsLine "32 word"

text \<open>
  The state of the process: the environment, the two streams, and a counter that the model
  adds to observe the program: \<open>parse_calls\<close> is incremented by every invocation of an
  executor's \<^verbatim>\<open>performParse\<close> and is never read by the program.
\<close>

record 'x state =
  env :: "'x env"
  outs :: "out_line list"
  errs :: "string list"
  parse_calls :: nat

text \<open>One timed call as \<^verbatim>\<open>perform\<close> sees it: the buffer, the pair \<^verbatim>\<open>measure\<close> returned
  and the \<^verbatim>\<open>llvm::Error\<close> the call left in \<^verbatim>\<open>err\<close>.\<close>

record timed_call =
  call_buffer :: buffer
  call_wall :: int
  call_cpu :: int
  call_result :: "error option"

text \<open>
  The local variables of \<^verbatim>\<open>perform\<close> that its loop reads and writes, with the process
  state: \<^verbatim>\<open>err\<close>, \<^verbatim>\<open>tDuration\<close> and \<^verbatim>\<open>cDuration\<close> (counts of nanoseconds;
  \<^verbatim>\<open>std::chrono::nanoseconds\<close> has a signed representation of at least 64 bits, whose
  overflow is left out of the model). \<open>calls\<close> is the second observer of the model: the
  timed calls made so far, in order.
\<close>

record 'x frame =
  st :: "'x state"
  err :: "error option"
  tDuration :: int
  cDuration :: int
  calls :: "timed_call list"

text \<open>An executor (\<^verbatim>\<open>struct LibParseExecutor\<close>, \<^verbatim>\<open>struct SwiftParserExecutor\<close>): the template
  parameter of \<^verbatim>\<open>perform\<close>, with its static members \<^verbatim>\<open>name\<close> and \<^verbatim>\<open>performParse\<close>.\<close>

record 'x executor_impl =
  name :: string
  performParse :: "buffer \<Rightarrow> ExecuteOptions \<Rightarrow> 'x env \<Rightarrow> error option \<times> 'x env"

subsection \<open>The timing probe\<close>

text \<open>Integer division of C++ on signed operands: the quotient is truncated towards
  zero.\<close>

definition cxx_sdiv :: "int \<Rightarrow> int \<Rightarrow> int" where
  "cxx_sdiv a b = (if (a < 0) = (b < 0) then \<bar>a\<bar> div \<bar>b\<bar> else - (\<bar>a\<bar> div \<bar>b\<bar>))"

text \<open>\<^verbatim>\<open>std::nano\<close>, the period of \<^verbatim>\<open>std::chrono::nanoseconds\<close>.\<close>

definition period_num :: int where
  "period_num = 1"

definition period_den :: int where
  "period_den = 1000000000"

text \<open>
  \<^verbatim>\<open>CLOCKS_PER_SEC > 0 ? (Duration::period::den / CLOCKS_PER_SEC / Duration::period::num) : 0\<close>
  with \<^verbatim>\<open>Duration = std::chrono::nanoseconds\<close>. \<^verbatim>\<open>CLOCKS_PER_SEC\<close> comes from the platform's
  \<^verbatim>\<open><ctime>\<close> and is a parameter.
\<close>

definition clockMultiply :: "int \<Rightarrow> int" where
  "clockMultiply CLOCKS_PER_SEC =
     (if CLOCKS_PER_SEC > 0
      then cxx_sdiv (cxx_sdiv period_den CLOCKS_PER_SEC) period_num
      else 0)"

text \<open>
  \<^verbatim>\<open>measure<Duration>(body)\<close> with \<^verbatim>\<open>Duration = std::chrono::nanoseconds\<close> (named
  \<open>measure_body\<close>, as \<open>measure\<close> is a constant of HOL): both clocks are
  read, \<open>body\<close> runs, both clocks are read again. The steady clock counts nanoseconds, so
  the \<^verbatim>\<open>duration_cast\<close> of the wall time is the identity. The result is the pair
  (wall, CPU) and the state \<open>body\<close> left.
\<close>

definition measure_body :: "int \<Rightarrow> ('x frame \<Rightarrow> 'x frame) \<Rightarrow> 'x frame \<Rightarrow> (int \<times> int) \<times> 'x frame" where
  "measure_body CLOCKS_PER_SEC body f =
     (let cStart = cpu_clock (env (st f));
          tStart = steady_clock (env (st f));
          f' = body f;
          cEnd = cpu_clock (env (st f'));
          tEnd = steady_clock (env (st f'));
          cDur = (cEnd - cStart) * clockMultiply CLOCKS_PER_SEC
      in ((tEnd - tStart, cDur), f'))"

subsection \<open>The run of one executor\<close>

text \<open>The lambda that \<^verbatim>\<open>perform\<close> hands to \<^verbatim>\<open>measure\<close>:
  \<^verbatim>\<open>[&] { err = Executor::performParse(buffer->getMemBufferRef(), opts); }\<close>\<close>

definition parse_body :: "'x executor_impl \<Rightarrow> buffer \<Rightarrow> ExecuteOptions \<Rightarrow> 'x frame \<Rightarrow> 'x frame" where
  "parse_body ex b opts f =
     (let (r, e') = performParse ex b opts (env (st f))
      in f\<lparr>st := (st f)\<lparr>env := e', parse_calls := Suc (parse_calls (st f))\<rparr>, err := r\<rparr>)"

text \<open>
  The inner loop \<^verbatim>\<open>for (auto &buffer : buffers)\<close>. \<^verbatim>\<open>return err\<close> leaves both loops with
  \<^verbatim>\<open>err\<close> in the failure state; the loops are entered with \<^verbatim>\<open>err\<close> in the success state
  and every call overwrites it, so \<^verbatim>\<open>err\<close> in the failure state after a loop means that
  the function has returned.
\<close>

fun perform_buffers ::
  "int \<Rightarrow> 'x executor_impl \<Rightarrow> ExecuteOptions \<Rightarrow> buffer list \<Rightarrow> 'x frame \<Rightarrow> 'x frame" where
  "perform_buffers cps ex opts [] f = f"
| "perform_buffers cps ex opts (b # bs) f =
     (let (elapsed, f1) = measure_body cps (parse_body ex b opts) f;
          f2 = f1\<lparr>calls := calls f1 @
                 [\<lparr>call_buffer = b, call_wall = fst elapsed, call_cpu = snd elapsed,
                   call_result = err f1\<rparr>]\<rparr>
      in if err f2 \<noteq> None then f2
         else perform_buffers cps ex opts bs
                (f2\<lparr>tDuration := tDuration f2 + fst elapsed,
                    cDuration := cDuration f2 + snd elapsed\<rparr>))"

text \<open>The outer loop \<^verbatim>\<open>for (unsigned i = 0; i < iteration; i++)\<close>, started at \<open>i\<close>.\<close>

function perform_iterations ::
  "int \<Rightarrow> 'x executor_impl \<Rightarrow> ExecuteOptions \<Rightarrow> buffer list \<Rightarrow> 32 word \<Rightarrow> 32 word \<Rightarrow> 'x frame
     \<Rightarrow> 'x frame" where
  "perform_iterations cps ex opts buffers iteration i f =
     (if i < iteration
      then (let f' = perform_buffers cps ex opts buffers f
            in if err f' \<noteq> None then f'
               else perform_iterations cps ex opts buffers iteration (i + 1) f')
      else f)"
  by pat_completeness auto
termination
proof (relation "measure (\<lambda>(cps, ex, opts, buffers, iteration, i, f). unat iteration - unat i)")
  show "wf (measure (\<lambda>(cps :: int, ex :: 'x executor_impl, opts :: ExecuteOptions,
          buffers :: buffer list, iteration :: 32 word, i :: 32 word, f :: 'x frame).
          unat iteration - unat i))"
    by simp
next
  fix cps :: int and ex :: "'x executor_impl" and opts :: ExecuteOptions
    and buffers :: "buffer list" and iteration i :: "32 word" and f x :: "'x frame"
  assume lt: "i < iteration"
  then have "unat (i + 1) = Suc (unat i)"
    by unat_arith
  moreover from lt have "unat i < unat iteration"
    by (simp add: word_less_nat_alt)
  ultimately show "((cps, ex, opts, buffers, iteration, i + 1, x), cps, ex, opts, buffers, iteration, i, f)
      \<in> measure (\<lambda>(cps, ex, opts, buffers, iteration, i, f). unat iteration - unat i)"
    by simp
qed

declare perform_iterations.simps [simp del]

text \<open>\<^verbatim>\<open>std::chrono::duration_cast<std::chrono::milliseconds>\<close> of a count of nanoseconds:
  the count divided by \<open>1000000\<close> with the division of C++.\<close>

definition duration_cast_ms :: "int \<Rightarrow> int" where
  "duration_cast_ms ns = cxx_sdiv ns 1000000"

text \<open>The state in which \<^verbatim>\<open>perform\<close> enters its loops: the two header lines are written,
  \<^verbatim>\<open>tDuration\<close> and \<^verbatim>\<open>cDuration\<close> are \<^verbatim>\<open>duration_t::zero()\<close>, \<^verbatim>\<open>err\<close> is
  \<^verbatim>\<open>llvm::Error::success()\<close>.\<close>

definition perform_enter :: "'x executor_impl \<Rightarrow> 'x state \<Rightarrow> 'x frame" where
  "perform_enter ex s =
     \<lparr>st = s\<lparr>outs := outs s @ [Dashes, Parser (name ex)]\<rparr>,
      err = None, tDuration = 0, cDuration = 0, calls = []\<rparr>"

text \<open>The state in which \<^verbatim>\<open>perform\<close> leaves its loops, by \<^verbatim>\<open>return err\<close> or at their
  end.\<close>

definition perform_loops ::
  "int \<Rightarrow> 'x executor_impl \<Rightarrow> buffer list \<Rightarrow> ExecuteOptions \<Rightarrow> 32 word \<Rightarrow> 'x state \<Rightarrow> 'x frame" where
  "perform_loops cps ex buffers opts iteration s =
     perform_iterations cps ex opts buffers iteration 0 (perform_enter ex s)"

text \<open>
  \<^verbatim>\<open>perform<Executor>(buffers, opts, iteration, totalBytes, totalLines)\<close>. The two totals
  are \<^verbatim>\<open>uintmax_t\<close>; the product with \<^verbatim>\<open>duration_t::period::den\<close> and the quotient by
  \<^verbatim>\<open>cDuration.count()\<close> are computed in \<^verbatim>\<open>uintmax_t\<close>, after the usual arithmetic
  conversions. The result is the \<^verbatim>\<open>llvm::Error\<close> returned and the state of the process.
\<close>

definition perform ::
  "int \<Rightarrow> 'x executor_impl \<Rightarrow> buffer list \<Rightarrow> ExecuteOptions \<Rightarrow> 32 word \<Rightarrow> 64 word \<Rightarrow> 64 word
     \<Rightarrow> 'x state \<Rightarrow> error option \<times> 'x state" where
  "perform cps ex buffers opts iteration totalBytes totalLines s =
     (let f = perform_loops cps ex buffers opts iteration s
      in if err f \<noteq> None then (err f, st f)
         else
           (let tDisplay = duration_cast_ms (tDuration f);
                cDisplay = duration_cast_ms (cDuration f);
                s2 = (st f)\<lparr>outs := outs (st f) @ [WallClockTimeMs tDisplay, CpuTimeMs cDisplay]\<rparr>;
                s3 = (if cDuration f > 0
                      then (let byteTPS = totalBytes * word_of_int period_den
                                            div word_of_int (cDuration f);
                                lineTPS = totalLines * word_of_int period_den
                                            div word_of_int (cDuration f)
                            in s2\<lparr>outs := outs s2 @
                                 [ThroughputBytePerSec byteTPS, ThroughputLinePerSec lineTPS]\<rparr>)
                      else s2)
            in (None, s3)))"

subsection \<open>The platform and the two executors\<close>

text \<open>
  What the build and the machine supply: \<^verbatim>\<open>CLOCKS_PER_SEC\<close>, the build flag
  \<^verbatim>\<open>SWIFT_BUILD_SWIFT_SYNTAX\<close>, the effect on the environment of the two parsers
  (\<^verbatim>\<open>Parser::parseTopLevelItems\<close> with its setup, and \<^verbatim>\<open>swift_ASTGen_parseSourceFile\<close> with
  \<^verbatim>\<open>swift_ASTGen_destroySourceFile\<close>), and the file system as
  \<^verbatim>\<open>llvm::sys::fs::is_directory\<close>, \<^verbatim>\<open>llvm::sys::fs::directory_iterator\<close> (the paths it
  yields, in its order) and \<^verbatim>\<open>llvm::MemoryBuffer::getFile\<close> (\<open>None\<close> when it returns an
  error) answer.
\<close>

record 'x platform =
  CLOCKS_PER_SEC :: int
  SWIFT_BUILD_SWIFT_SYNTAX :: bool
  parseTopLevelItems :: "buffer \<Rightarrow> ParsingFlags set \<Rightarrow> 'x env \<Rightarrow> 'x env"
  swift_ASTGen_parseSourceFile :: "buffer \<Rightarrow> 'x env \<Rightarrow> 'x env"
  is_directory :: "string \<Rightarrow> bool"
  directory_entries :: "string \<Rightarrow> string list"
  getFile :: "string \<Rightarrow> buffer option"

definition LibParseExecutor :: "'x platform \<Rightarrow> 'x executor_impl" where
  "LibParseExecutor pf =
     \<lparr>name = ''libParse'',
      performParse = (\<lambda>buffer opts e.
        let parseOpts = {DisablePoundIfEvaluation} \<union>
              (if SkipBodies \<notin> opts then {DisableDelayedBodies} else {})
        in (None, parseTopLevelItems pf buffer parseOpts e))\<rparr>"

definition SwiftParserExecutor :: "'x platform \<Rightarrow> 'x executor_impl" where
  "SwiftParserExecutor pf =
     \<lparr>name = ''SwiftParser'',
      performParse = (\<lambda>buffer opts e.
        if SWIFT_BUILD_SWIFT_SYNTAX pf
        then (None, swift_ASTGen_parseSourceFile pf buffer e)
        else (Some (StringError ''SwiftParser is not supported''), e))\<rparr>"

subsection \<open>Loading the corpus\<close>

text \<open>\<^verbatim>\<open>StringRef::endswith\<close>: the suffix is not longer than the string and equals its
  end.\<close>

definition endswith :: "string \<Rightarrow> string \<Rightarrow> bool" where
  "endswith s suffix =
     (length s \<ge> length suffix \<and> drop (length s - length suffix) s = suffix)"

text \<open>A loop over paths that hands the buffers collected so far to its body.\<close>

fun for_each_path ::
  "(string \<Rightarrow> buffer list \<Rightarrow> buffer list option) \<Rightarrow> string list \<Rightarrow> buffer list
     \<Rightarrow> buffer list option" where
  "for_each_path g [] buffers = Some buffers"
| "for_each_path g (p # ps) buffers =
     (case g p buffers of
        None \<Rightarrow> None
      | Some buffers' \<Rightarrow> for_each_path g ps buffers')"

text \<open>
  \<^verbatim>\<open>_loadSwiftFilesRecursively(path, buffers)\<close>. The recursion follows the directories of
  the file system, which the model does not assume to be well-founded: the first argument
  bounds the depth of the recursion, and \<open>None\<close> means that the bound was reached.
\<close>

fun loadSwiftFilesRecursively ::
  "nat \<Rightarrow> 'x platform \<Rightarrow> string \<Rightarrow> buffer list \<Rightarrow> buffer list option" where
  "loadSwiftFilesRecursively 0 pf path buffers = None"
| "loadSwiftFilesRecursively (Suc depth) pf path buffers =
     (if is_directory pf path
      then for_each_path (\<lambda>p bs. loadSwiftFilesRecursively depth pf p bs)
             (directory_entries pf path) buffers
      else if endswith path ''.swift''
      then (case getFile pf path of
              Some buffer \<Rightarrow> Some (buffers @ [buffer])
            | None \<Rightarrow> Some buffers)
      else Some buffers)"

text \<open>\<^verbatim>\<open>loadSources(filePaths, buffers)\<close>\<close>

definition loadSources ::
  "nat \<Rightarrow> 'x platform \<Rightarrow> string list \<Rightarrow> buffer list \<Rightarrow> buffer list option" where
  "loadSources depth pf filePaths buffers =
     for_each_path (\<lambda>p bs. loadSwiftFilesRecursively depth pf p bs) filePaths buffers"

subsection \<open>The driver\<close>

text \<open>
  The loop of \<^verbatim>\<open>swift_parse_test_main\<close> over the buffers, on \<^verbatim>\<open>unsigned int byteCount\<close> and
  \<^verbatim>\<open>unsigned int lineCount\<close>: \<^verbatim>\<open>+=\<close> converts the sum to \<^verbatim>\<open>unsigned int\<close>.
\<close>

fun count_corpus :: "buffer list \<Rightarrow> 32 word \<times> 32 word \<Rightarrow> 32 word \<times> 32 word" where
  "count_corpus [] (byteCount, lineCount) = (byteCount, lineCount)"
| "count_corpus (b # bs) (byteCount, lineCount) =
     count_corpus bs
       (byteCount + word_of_nat (getBufferSize b), lineCount + word_of_nat (count_newlines b))"

text \<open>The \<^verbatim>\<open>switch\<close> on the executor: the instance of \<^verbatim>\<open>perform\<close> that is called, with
  \<^verbatim>\<open>byteCount\<close> and \<^verbatim>\<open>lineCount\<close> converted to \<^verbatim>\<open>uintmax_t\<close>.\<close>

fun perform_mode ::
  "'x platform \<Rightarrow> Executor \<Rightarrow> buffer list \<Rightarrow> ExecuteOptions \<Rightarrow> 32 word \<Rightarrow> 32 word \<Rightarrow> 32 word
     \<Rightarrow> 'x state \<Rightarrow> error option \<times> 'x state" where
  "perform_mode pf SwiftParser buffers execOptions iterations byteCount lineCount s =
     perform (CLOCKS_PER_SEC pf) (SwiftParserExecutor pf) buffers execOptions iterations
       (ucast byteCount) (ucast lineCount) s"
| "perform_mode pf LibParse buffers execOptions iterations byteCount lineCount s =
     perform (CLOCKS_PER_SEC pf) (LibParseExecutor pf) buffers execOptions iterations
       (ucast byteCount) (ucast lineCount) s"

text \<open>The loop \<^verbatim>\<open>for (auto mode : options.Executors)\<close> with its \<^verbatim>\<open>break\<close>; the result is
  \<^verbatim>\<open>err\<close> after the loop.\<close>

fun run_executors ::
  "'x platform \<Rightarrow> Executor list \<Rightarrow> buffer list \<Rightarrow> ExecuteOptions \<Rightarrow> 32 word \<Rightarrow> 32 word
     \<Rightarrow> 32 word \<Rightarrow> 'x state \<Rightarrow> error option \<times> 'x state" where
  "run_executors pf [] buffers execOptions iterations byteCount lineCount s = (None, s)"
| "run_executors pf (mode # modes) buffers execOptions iterations byteCount lineCount s =
     (let (r, s') = perform_mode pf mode buffers execOptions iterations byteCount lineCount s
      in if r \<noteq> None then (r, s')
         else run_executors pf modes buffers execOptions iterations byteCount lineCount s')"

text \<open>
  \<^verbatim>\<open>swift_parse_test_main\<close>, from the parsed command line on. The result is the exit status
  and the state of the process, or \<open>None\<close> when loading the corpus reached the bound on
  the depth.
\<close>

definition swift_parse_test_main ::
  "nat \<Rightarrow> 'x platform \<Rightarrow> SwiftParseTestOptions \<Rightarrow> 'x state \<Rightarrow> (int \<times> 'x state) option" where
  "swift_parse_test_main depth pf options s =
     (let iterations = Iterations options;
          execOptions = (if SkipBodiesOpt options then {SkipBodies} else {})
      in case loadSources depth pf (InputPaths options) [] of
           None \<Rightarrow> None
         | Some buffers \<Rightarrow>
             (let (byteCount, lineCount) = count_corpus buffers (0, 0);
                  s1 = s\<lparr>outs := outs s @
                         [FileCount (length buffers), TotalBytes byteCount,
                          TotalLines lineCount, IterationsLine iterations]\<rparr>;
                  (r, s2) = run_executors pf (Executors options) buffers execOptions iterations
                              byteCount lineCount s1
              in case r of
                   Some e \<Rightarrow> Some (1, s2\<lparr>errs := errs s2 @ [''error: '' @ message e]\<rparr>)
                 | None \<Rightarrow> Some (0, s2)))"

subsection \<open>Notions used to state the properties\<close>

text \<open>A timed call succeeded when it left \<^verbatim>\<open>err\<close> in the success state.\<close>

definition succeeded :: "timed_call \<Rightarrow> bool" where
  "succeeded c \<longleftrightarrow> call_result c = None"

text \<open>
  \<open>advances f work new f'\<close>: going from \<open>f\<close> to \<open>f'\<close>, the loops of \<^verbatim>\<open>perform\<close> made the
  timed calls \<open>new\<close>, on a prefix of the buffers \<open>work\<close> in their order; every call but
  the last succeeded, the last one left \<^verbatim>\<open>err\<close> as it is in \<open>f'\<close>, the two totals grew by
  the durations of the calls that succeeded, and nothing was written to the streams.
\<close>

definition advances :: "'x frame \<Rightarrow> buffer list \<Rightarrow> timed_call list \<Rightarrow> 'x frame \<Rightarrow> bool" where
  "advances f work new f' \<longleftrightarrow>
     calls f' = calls f @ new \<and>
     map call_buffer new = take (length new) work \<and>
     parse_calls (st f') = parse_calls (st f) + length new \<and>
     outs (st f') = outs (st f) \<and>
     errs (st f') = errs (st f) \<and>
     tDuration f' = tDuration f + sum_list (map call_wall (filter succeeded new)) \<and>
     cDuration f' = cDuration f + sum_list (map call_cpu (filter succeeded new)) \<and>
     (\<forall>c \<in> set (butlast new). succeeded c) \<and>
     (new \<noteq> [] \<longrightarrow> call_result (last new) = err f') \<and>
     (new = [] \<longrightarrow> err f' = err f) \<and>
     (err f' = None \<longrightarrow> length new = length work)"

text \<open>The results of \<^verbatim>\<open>performParse\<close> on the buffers of a list in order, each call in the
  environment that the call before it left.\<close>

fun parse_results ::
  "'x executor_impl \<Rightarrow> ExecuteOptions \<Rightarrow> buffer list \<Rightarrow> 'x env \<Rightarrow> error option list" where
  "parse_results ex opts [] e = []"
| "parse_results ex opts (b # bs) e =
     fst (performParse ex b opts e) # parse_results ex opts bs (snd (performParse ex b opts e))"

text \<open>The lines written to \<^verbatim>\<open>llvm::outs()\<close> between two states.\<close>

definition written :: "'x state \<Rightarrow> 'x state \<Rightarrow> out_line list" where
  "written s s' = drop (length (outs s)) (outs s')"

fun is_throughput :: "out_line \<Rightarrow> bool" where
  "is_throughput (ThroughputBytePerSec v) = True"
| "is_throughput (ThroughputLinePerSec v) = True"
| "is_throughput l = False"

text \<open>The names on the \<^verbatim>\<open>parser:\<close> lines of an output, in order.\<close>

fun parser_lines :: "out_line list \<Rightarrow> string list" where
  "parser_lines [] = []"
| "parser_lines (Parser n # ls) = n # parser_lines ls"
| "parser_lines (l # ls) = parser_lines ls"

text \<open>The executor that the \<^verbatim>\<open>switch\<close> of \<^verbatim>\<open>swift_parse_test_main\<close> selects.\<close>

fun executor_of :: "'x platform \<Rightarrow> Executor \<Rightarrow> 'x executor_impl" where
  "executor_of pf SwiftParser = SwiftParserExecutor pf"
| "executor_of pf LibParse = LibParseExecutor pf"

text \<open>The options \<^verbatim>\<open>swift_parse_test_main\<close> hands to the executors.\<close>

definition exec_options :: "SwiftParseTestOptions \<Rightarrow> ExecuteOptions" where
  "exec_options options = (if SkipBodiesOpt options then {SkipBodies} else {})"

text \<open>The state in which \<^verbatim>\<open>swift_parse_test_main\<close> enters its loop over the executors: the
  preamble is written.\<close>

definition after_preamble ::
  "'x state \<Rightarrow> SwiftParseTestOptions \<Rightarrow> buffer list \<Rightarrow> 32 word \<Rightarrow> 32 word \<Rightarrow> 'x state" where
  "after_preamble s options buffers bc lc =
     s\<lparr>outs := outs s @ [FileCount (length buffers), TotalBytes bc, TotalLines lc,
                          IterationsLine (Iterations options)]\<rparr>"

text \<open>
  \<open>runs_succeed pf ms buffers xo it bc lc ss\<close>: the runs of the executors \<open>ms\<close>, each
  started by the \<^verbatim>\<open>switch\<close> in the state that the run before it left, all return success;
  \<open>ss\<close> lists the state before the first run and the state after each run.
\<close>

definition runs_succeed ::
  "'x platform \<Rightarrow> Executor list \<Rightarrow> buffer list \<Rightarrow> ExecuteOptions \<Rightarrow> 32 word \<Rightarrow> 32 word \<Rightarrow> 32 word
     \<Rightarrow> 'x state list \<Rightarrow> bool" where
  "runs_succeed pf ms buffers xo it bc lc ss \<longleftrightarrow>
     length ss = Suc (length ms) \<and>
     (\<forall>i < length ms.
        perform_mode pf (ms ! i) buffers xo it bc lc (ss ! i) = (None, ss ! Suc i))"

text \<open>
  The throughput as the specification words it: the total times the number of iterations,
  divided by the CPU time in seconds, truncated. With the CPU time counted in nanoseconds
  this is \<open>total * iterations * 10\<^sup>9\<close> divided by the count.
\<close>

definition spec_throughput :: "nat \<Rightarrow> nat \<Rightarrow> nat \<Rightarrow> nat" where
  "spec_throughput amount iterations cpu_ns = (amount * iterations * 1000000000) div cpu_ns"

text \<open>A count of nanoseconds rounded to the nearest millisecond, as the specification
  words the two times of the report (for counts that are not negative).\<close>

definition spec_round_ms :: "int \<Rightarrow> int" where
  "spec_round_ms ns = (ns + 500000) div 1000000"

subsection \<open>Example runs\<close>

definition example_state :: "unit state" where
  "example_state =
     \<lparr>env = \<lparr>cpu_clock = 0, steady_clock = 0, hidden = ()\<rparr>,
      outs = [], errs = [], parse_calls = 0\<rparr>"

definition file_a :: buffer where
  "file_a = \<lparr>getBufferIdentifier = ''src/a.swift'', getBuffer = ''let a = 1'' @ [CHR 0x0A]\<rparr>"

definition file_b :: buffer where
  "file_b = \<lparr>getBufferIdentifier = ''b.swift'',
              getBuffer = ''var b = 2'' @ [CHR 0x0A] @ ''b += 1'' @ [CHR 0x0A]\<rparr>"

definition file_bad :: buffer where
  "file_bad = \<lparr>getBufferIdentifier = ''bad.swift'', getBuffer = ''func''\<rparr>"

definition file_notes :: buffer where
  "file_notes = \<lparr>getBufferIdentifier = ''src/notes.txt'', getBuffer = ''todo''\<rparr>"

text \<open>A machine with a clock of a million ticks per second and a build without
  \<^verbatim>\<open>SWIFT_BUILD_SWIFT_SYNTAX\<close>; a parse by libParse takes half a second of CPU time and
  600 ms of wall time. The directory \<open>src\<close> holds a Swift file, a text file and a Swift
  file that cannot be read; the directory \<open>locked\<close> cannot be listed.\<close>

definition example_platform :: "unit platform" where
  "example_platform =
     \<lparr>CLOCKS_PER_SEC = 1000000,
      SWIFT_BUILD_SWIFT_SYNTAX = False,
      parseTopLevelItems = (\<lambda>b flags e.
        e\<lparr>cpu_clock := cpu_clock e + 500000, steady_clock := steady_clock e + 600000000\<rparr>),
      swift_ASTGen_parseSourceFile = (\<lambda>b e. e),
      is_directory = (\<lambda>p. p = ''src'' \<or> p = ''locked''),
      directory_entries = (\<lambda>p.
        if p = ''src'' then [''src/a.swift'', ''src/notes.txt'', ''src/gone.swift''] else []),
      getFile = (\<lambda>p.
        if p = ''src/a.swift'' then Some file_a
        else if p = ''src/notes.txt'' then Some file_notes
        else if p = ''b.swift'' then Some file_b
        else None)\<rparr>"

text \<open>An executor that fails on the buffer \<open>bad.swift\<close>; every call, failing or not, takes
  7 ticks of CPU time and 9000 ns of wall time.\<close>

definition picky_executor :: "unit executor_impl" where
  "picky_executor =
     \<lparr>name = ''picky'',
      performParse = (\<lambda>b opts e.
        (if getBufferIdentifier b = ''bad.swift'' then Some (StringError ''syntax error'')
         else None,
         e\<lparr>cpu_clock := cpu_clock e + 7, steady_clock := steady_clock e + 9000\<rparr>))\<rparr>"

text \<open>An executor whose every call succeeds after 1900 ticks of CPU time and 1900000 ns of
  wall time.\<close>

definition quick_executor :: "unit executor_impl" where
  "quick_executor =
     \<lparr>name = ''quick'',
      performParse = (\<lambda>b opts e.
        (None, e\<lparr>cpu_clock := cpu_clock e + 1900, steady_clock := steady_clock e + 1900000\<rparr>))\<rparr>"

text \<open>An executor whose calls take no measurable time.\<close>

definition instant_executor :: "unit executor_impl" where
  "instant_executor = \<lparr>name = ''instant'', performParse = (\<lambda>b opts e. (None, e))\<rparr>"

text \<open>A rank on the paths of the example machine that decreases from a directory to its
  entries.\<close>

definition example_rank :: "string \<Rightarrow> nat" where
  "example_rank p = (if p = ''src'' \<or> p = ''locked'' then 1 else 0)"

text \<open>A command line: libParse, two iterations, the directory \<open>src\<close>.\<close>

definition example_options :: SwiftParseTestOptions where
  "example_options =
     \<lparr>Executors = [LibParse], Iterations = 2, SkipBodiesOpt = False, InputPaths = [''src'']\<rparr>"

text \<open>A command line that selects libParse, SwiftParser and libParse again, for one
  iteration over the directory \<open>src\<close> and the file \<open>b.swift\<close>, skipping bodies.\<close>

definition failing_options :: SwiftParseTestOptions where
  "failing_options =
     \<lparr>Executors = [LibParse, SwiftParser, LibParse], Iterations = 1, SkipBodiesOpt = True,
      InputPaths = [''src'', ''b.swift'']\<rparr>"

text \<open>A file of \<open>2\<^sup>3\<^sup>2 + 5\<close> line feeds.\<close>

definition file_huge :: buffer where
  "file_huge = \<lparr>getBufferIdentifier = ''huge.swift'',
                 getBuffer = replicate (2 ^ 32 + 5) (CHR 0x0A)\<rparr>"

text \<open>A machine whose only file is that one and where a parse by libParse takes one second
  of CPU and of wall time, and a command line that names the file and selects libParse for
  one iteration.\<close>

definition huge_platform :: "unit platform" where
  "huge_platform =
     \<lparr>CLOCKS_PER_SEC = 1000000,
      SWIFT_BUILD_SWIFT_SYNTAX = False,
      parseTopLevelItems = (\<lambda>b flags e.
        e\<lparr>cpu_clock := cpu_clock e + 1000000, steady_clock := steady_clock e + 1000000000\<rparr>),
      swift_ASTGen_parseSourceFile = (\<lambda>b e. e),
      is_directory = (\<lambda>p. False),
      directory_entries = (\<lambda>p. []),
      getFile = (\<lambda>p. if p = ''huge.swift'' then Some file_huge else None)\<rparr>"

definition huge_options :: SwiftParseTestOptions where
  "huge_options =
     \<lparr>Executors = [LibParse], Iterations = 1, SkipBodiesOpt = False, InputPaths = [''huge.swift'']\<rparr>"

section \<open>Properties\<close>

subsection \<open>The loops of \<open>perform\<close>\<close>

lemma measure_body_eq:
  "measure_body cps body f =
     ((steady_clock (env (st (body f))) - steady_clock (env (st f)),
       (cpu_clock (env (st (body f))) - cpu_clock (env (st f))) * clockMultiply cps),
      body f)"
  by (simp add: measure_body_def Let_def)

lemma parse_body_fields:
  "outs (st (parse_body ex b opts f)) = outs (st f)"
  "errs (st (parse_body ex b opts f)) = errs (st f)"
  "parse_calls (st (parse_body ex b opts f)) = Suc (parse_calls (st f))"
  "env (st (parse_body ex b opts f)) = snd (performParse ex b opts (env (st f)))"
  "err (parse_body ex b opts f) = fst (performParse ex b opts (env (st f)))"
  "tDuration (parse_body ex b opts f) = tDuration f"
  "cDuration (parse_body ex b opts f) = cDuration f"
  "calls (parse_body ex b opts f) = calls f"
  by (simp_all add: parse_body_def split: prod.splits)

lemma advances_refl: "advances f [] [] f"
  by (simp add: advances_def)

lemma advances_length: "advances f work new f' \<Longrightarrow> length new \<le> length work"
proof -
  assume "advances f work new f'"
  then have "map call_buffer new = take (length new) work"
    by (simp add: advances_def)
  then have "length (map call_buffer new) = length (take (length new) work)"
    by simp
  then show ?thesis by simp
qed

lemma advances_all_succeeded:
  assumes a1: "advances f w1 n1 f1" and ok: "err f1 = None"
  shows "\<forall>c \<in> set n1. succeeded c"
proof (cases n1 rule: rev_cases)
  case Nil
  then show ?thesis by simp
next
  case (snoc ys y)
  from a1 have "\<forall>c \<in> set (butlast n1). succeeded c" and "call_result (last n1) = err f1"
    using snoc by (simp_all add: advances_def)
  with ok snoc show ?thesis by (simp add: succeeded_def)
qed

lemma advances_trans:
  assumes a1: "advances f w1 n1 f1" and ok: "err f1 = None" and a2: "advances f1 w2 n2 f2"
  shows "advances f (w1 @ w2) (n1 @ n2) f2"
proof -
  from a1 ok have len1: "length n1 = length w1"
    by (simp add: advances_def)
  have all1: "\<forall>c \<in> set n1. succeeded c"
    using a1 ok by (rule advances_all_succeeded)
  from a2 have bl2: "\<forall>c \<in> set (butlast n2). succeeded c"
    by (simp add: advances_def)
  from a1 have bl1: "\<forall>c \<in> set (butlast n1). succeeded c"
    by (simp add: advances_def)
  have bl: "\<forall>c \<in> set (butlast (n1 @ n2)). succeeded c"
    using all1 bl1 bl2 by (simp add: butlast_append ball_Un)
  from a2 have l2: "n2 \<noteq> [] \<longrightarrow> call_result (last n2) = err f2" and e2: "n2 = [] \<longrightarrow> err f2 = err f1"
    by (simp_all add: advances_def)
  from a1 have l1: "n1 \<noteq> [] \<longrightarrow> call_result (last n1) = err f1" and e1: "n1 = [] \<longrightarrow> err f1 = err f"
    by (simp_all add: advances_def)
  have lst: "n1 @ n2 \<noteq> [] \<longrightarrow> call_result (last (n1 @ n2)) = err f2"
    using l1 l2 e2 by (cases "n2 = []") simp_all
  have emp: "n1 @ n2 = [] \<longrightarrow> err f2 = err f"
    using e1 e2 by simp
  from a2 have len2: "err f2 = None \<longrightarrow> length n2 = length w2"
    by (simp add: advances_def)
  from a2 have "map call_buffer n2 = take (length n2) w2"
    by (simp add: advances_def)
  moreover from a1 len1 have "map call_buffer n1 = w1"
    by (simp add: advances_def)
  ultimately have bufs: "map call_buffer (n1 @ n2) = take (length (n1 @ n2)) (w1 @ w2)"
    using len1 by simp
  have c: "calls f2 = calls f @ (n1 @ n2)"
    using a1 a2 by (simp add: advances_def)
  have p: "parse_calls (st f2) = parse_calls (st f) + length (n1 @ n2)"
    using a1 a2 by (simp add: advances_def)
  have o: "outs (st f2) = outs (st f)" "errs (st f2) = errs (st f)"
    using a1 a2 by (simp_all add: advances_def)
  have t: "tDuration f2 = tDuration f + sum_list (map call_wall (filter succeeded (n1 @ n2)))"
    using a1 a2 by (simp add: advances_def)
  have cd: "cDuration f2 = cDuration f + sum_list (map call_cpu (filter succeeded (n1 @ n2)))"
    using a1 a2 by (simp add: advances_def)
  show ?thesis
    unfolding advances_def
    using c bufs p o t cd bl lst emp len1 len2 by simp
qed

lemma advances_stop:
  assumes a1: "advances f w1 n1 f1" and bad: "err f1 \<noteq> None"
  shows "advances f (w1 @ w2) n1 f1"
proof -
  have "length n1 \<le> length w1"
    using a1 by (rule advances_length)
  moreover from a1 have "map call_buffer n1 = take (length n1) w1"
    by (simp add: advances_def)
  ultimately have bufs: "map call_buffer n1 = take (length n1) (w1 @ w2)"
    by simp
  from bad have nn: "err f1 = None \<longrightarrow> length n1 = length (w1 @ w2)"
    by blast
  from a1 have rest: "calls f1 = calls f @ n1"
      "parse_calls (st f1) = parse_calls (st f) + length n1"
      "outs (st f1) = outs (st f)" "errs (st f1) = errs (st f)"
      "tDuration f1 = tDuration f + sum_list (map call_wall (filter succeeded n1))"
      "cDuration f1 = cDuration f + sum_list (map call_cpu (filter succeeded n1))"
      "\<forall>c \<in> set (butlast n1). succeeded c"
      "n1 \<noteq> [] \<longrightarrow> call_result (last n1) = err f1"
      "n1 = [] \<longrightarrow> err f1 = err f"
    by (simp_all add: advances_def)
  show ?thesis
    unfolding advances_def
    using bufs nn rest by blast
qed

lemma advances_step_fail:
  assumes "f1 = snd (measure_body cps (parse_body ex b opts) f)"
    and "el = fst (measure_body cps (parse_body ex b opts) f)"
    and "c = \<lparr>call_buffer = b, call_wall = fst el, call_cpu = snd el, call_result = err f1\<rparr>"
    and "f2 = f1\<lparr>calls := calls f1 @ [c]\<rparr>"
    and "err f2 \<noteq> None"
  shows "advances f [b] [c] f2"
  using assms by (auto simp: advances_def measure_body_eq parse_body_fields succeeded_def)

lemma advances_step_ok:
  assumes "f1 = snd (measure_body cps (parse_body ex b opts) f)"
    and "el = fst (measure_body cps (parse_body ex b opts) f)"
    and "c = \<lparr>call_buffer = b, call_wall = fst el, call_cpu = snd el, call_result = err f1\<rparr>"
    and "f2 = f1\<lparr>calls := calls f1 @ [c]\<rparr>"
    and "err f2 = None"
  shows "advances f [b] [c]
           (f2\<lparr>tDuration := tDuration f2 + fst el, cDuration := cDuration f2 + snd el\<rparr>)"
  using assms by (auto simp: advances_def measure_body_eq parse_body_fields succeeded_def)

lemma perform_buffers_advances:
  "err f = None \<Longrightarrow> \<exists>new. advances f bs new (perform_buffers cps ex opts bs f)"
proof (induction bs arbitrary: f)
  case Nil
  show ?case using advances_refl by auto
next
  case (Cons b bs)
  define f1 where "f1 = snd (measure_body cps (parse_body ex b opts) f)"
  define el where "el = fst (measure_body cps (parse_body ex b opts) f)"
  define c where "c = \<lparr>call_buffer = b, call_wall = fst el, call_cpu = snd el, call_result = err f1\<rparr>"
  define f2 where "f2 = f1\<lparr>calls := calls f1 @ [c]\<rparr>"
  define f3 where "f3 = f2\<lparr>tDuration := tDuration f2 + fst el, cDuration := cDuration f2 + snd el\<rparr>"
  have unfold: "perform_buffers cps ex opts (b # bs) f =
      (if err f2 \<noteq> None then f2 else perform_buffers cps ex opts bs f3)"
    by (simp add: f1_def el_def c_def f2_def f3_def Let_def split: prod.splits)
  show ?case
  proof (cases "err f2 = None")
    case True
    then have s: "advances f [b] [c] f3"
      unfolding f3_def by (rule advances_step_ok [OF f1_def el_def c_def f2_def])
    have e3: "err f3 = None" using True by (simp add: f3_def)
    from Cons.IH [OF e3] obtain new where n: "advances f3 bs new (perform_buffers cps ex opts bs f3)"
      by blast
    have "advances f ([b] @ bs) ([c] @ new) (perform_buffers cps ex opts bs f3)"
      using s e3 n by (rule advances_trans)
    then show ?thesis using True unfold by auto
  next
    case False
    then have s: "advances f [b] [c] f2"
      by (rule advances_step_fail [OF f1_def el_def c_def f2_def])
    have "advances f ([b] @ bs) [c] f2"
      using s False by (rule advances_stop)
    then show ?thesis using False unfold by auto
  qed
qed


lemma word32_succ: "(i :: 32 word) < n \<Longrightarrow> unat (i + 1) = Suc (unat i)"
  by unat_arith

lemma perform_iterations_advances:
  "err f = None \<Longrightarrow>
   \<exists>new. advances f (concat (replicate (unat iteration - unat i) buffers)) new
           (perform_iterations cps ex opts buffers iteration i f)"
proof (induction cps ex opts buffers iteration i f rule: perform_iterations.induct)
  case (1 cps ex opts buffers iteration i f)
  show ?case
  proof (cases "i < iteration")
    case False
    then have "unat iteration - unat i = 0"
      by (simp add: word_less_nat_alt)
    moreover from False have "perform_iterations cps ex opts buffers iteration i f = f"
      by (subst perform_iterations.simps) simp
    ultimately show ?thesis
      using advances_refl [of f] by auto
  next
    case True
    define f' where "f' = perform_buffers cps ex opts buffers f"
    from True have suc: "unat (i + 1) = Suc (unat i)"
      by (rule word32_succ)
    from True have "unat i < unat iteration"
      by (simp add: word_less_nat_alt)
    with suc have k: "unat iteration - unat i = Suc (unat iteration - unat (i + 1))"
      by simp
    have work: "concat (replicate (unat iteration - unat i) buffers) =
        buffers @ concat (replicate (unat iteration - unat (i + 1)) buffers)"
      by (simp add: k)
    from "1.prems" obtain n1 where a1: "advances f buffers n1 f'"
      unfolding f'_def using perform_buffers_advances by blast
    show ?thesis
    proof (cases "err f' = None")
      case bad: False
      with True have res: "perform_iterations cps ex opts buffers iteration i f = f'"
        by (subst perform_iterations.simps) (simp add: f'_def Let_def)
      have "advances f (buffers @ concat (replicate (unat iteration - unat (i + 1)) buffers)) n1 f'"
        using a1 bad by (rule advances_stop)
      then show ?thesis
        unfolding res work by blast
    next
      case ok: True
      with True have res: "perform_iterations cps ex opts buffers iteration i f =
          perform_iterations cps ex opts buffers iteration (i + 1) f'"
        by (subst perform_iterations.simps) (simp add: f'_def Let_def)
      from "1.IH" [OF True f'_def _ ok] ok
      obtain n2 where a2: "advances f' (concat (replicate (unat iteration - unat (i + 1)) buffers)) n2
          (perform_iterations cps ex opts buffers iteration (i + 1) f')"
        by blast
      have "advances f (buffers @ concat (replicate (unat iteration - unat (i + 1)) buffers)) (n1 @ n2)
          (perform_iterations cps ex opts buffers iteration (i + 1) f')"
        using a1 ok a2 by (rule advances_trans)
      then show ?thesis
        unfolding res work by blast
    qed
  qed
qed

lemma perform_loops_advances:
  "\<exists>new. advances (perform_enter ex s) (concat (replicate (unat iteration) buffers)) new
          (perform_loops cps ex buffers opts iteration s)"
proof -
  have "err (perform_enter ex s) = None"
    by (simp add: perform_enter_def)
  from perform_iterations_advances [OF this, of iteration 0 buffers cps ex opts]
  show ?thesis
    by (simp add: perform_loops_def)
qed

lemma perform_loops_facts:
  fixes s :: "'x state"
  assumes "f = perform_loops cps ex buffers opts iteration s"
  shows "map call_buffer (calls f) = take (length (calls f)) (concat (replicate (unat iteration) buffers))"
    and "parse_calls (st f) = parse_calls s + length (calls f)"
    and "outs (st f) = outs s @ [Dashes, Parser (name ex)]"
    and "errs (st f) = errs s"
    and "tDuration f = sum_list (map call_wall (filter succeeded (calls f)))"
    and "cDuration f = sum_list (map call_cpu (filter succeeded (calls f)))"
    and "\<forall>c \<in> set (butlast (calls f)). succeeded c"
    and "calls f \<noteq> [] \<longrightarrow> call_result (last (calls f)) = err f"
    and "calls f = [] \<longrightarrow> err f = None"
    and "err f = None \<longrightarrow> length (calls f) = unat iteration * length buffers"
proof -
  obtain new where a: "advances (perform_enter ex s) (concat (replicate (unat iteration) buffers)) new f"
    unfolding assms using perform_loops_advances by blast
  have c: "calls f = new"
    using a by (simp add: advances_def perform_enter_def)
  have len: "length (concat (replicate (unat iteration) buffers)) = unat iteration * length buffers"
    by (induction "unat iteration") (simp_all add: length_concat sum_list_replicate)
  show "map call_buffer (calls f) = take (length (calls f)) (concat (replicate (unat iteration) buffers))"
    using a c by (simp add: advances_def)
  show "parse_calls (st f) = parse_calls s + length (calls f)"
    using a c by (simp add: advances_def perform_enter_def)
  show "outs (st f) = outs s @ [Dashes, Parser (name ex)]"
    using a by (simp add: advances_def perform_enter_def)
  show "errs (st f) = errs s"
    using a by (simp add: advances_def perform_enter_def)
  show "tDuration f = sum_list (map call_wall (filter succeeded (calls f)))"
    using a c by (simp add: advances_def perform_enter_def)
  show "cDuration f = sum_list (map call_cpu (filter succeeded (calls f)))"
    using a c by (simp add: advances_def perform_enter_def)
  show "\<forall>c \<in> set (butlast (calls f)). succeeded c"
    using a c by (simp add: advances_def)
  show "calls f \<noteq> [] \<longrightarrow> call_result (last (calls f)) = err f"
    using a c by (simp add: advances_def)
  show "calls f = [] \<longrightarrow> err f = None"
    using a c by (simp add: advances_def perform_enter_def)
  show "err f = None \<longrightarrow> length (calls f) = unat iteration * length buffers"
    using a c len by (simp add: advances_def)
qed

lemma perform_eq:
  fixes s :: "'x state"
  assumes "f = perform_loops cps ex buffers opts iteration s"
  shows "perform cps ex buffers opts iteration nbytes nlines s =
     (err f,
      (st f)\<lparr>outs := outs s @ [Dashes, Parser (name ex)] @
        (if err f = None
         then [WallClockTimeMs (duration_cast_ms (tDuration f)),
               CpuTimeMs (duration_cast_ms (cDuration f))] @
              (if cDuration f > 0
               then [ThroughputBytePerSec (nbytes * word_of_int period_den div word_of_int (cDuration f)),
                     ThroughputLinePerSec (nlines * word_of_int period_den div word_of_int (cDuration f))]
               else [])
         else [])\<rparr>)"
proof -
  have o: "outs (st f) = outs s @ [Dashes, Parser (name ex)]"
    using assms by (rule perform_loops_facts(3))
  show ?thesis
    unfolding perform_def assms [symmetric] Let_def
    using o by (cases "err f") simp_all
qed


lemma perform_written:
  fixes s :: "'x state"
  assumes "f = perform_loops cps ex buffers opts iteration s"
  shows "written s (snd (perform cps ex buffers opts iteration nbytes nlines s)) =
     [Dashes, Parser (name ex)] @
        (if err f = None
         then [WallClockTimeMs (duration_cast_ms (tDuration f)),
               CpuTimeMs (duration_cast_ms (cDuration f))] @
              (if cDuration f > 0
               then [ThroughputBytePerSec (nbytes * word_of_int period_den div word_of_int (cDuration f)),
                     ThroughputLinePerSec (nlines * word_of_int period_den div word_of_int (cDuration f))]
               else [])
         else [])"
  unfolding perform_eq [OF assms] written_def by simp

lemma perform_fst:
  "fst (perform cps ex buffers opts iteration nbytes nlines s) =
     err (perform_loops cps ex buffers opts iteration s)"
  by (simp add: perform_eq [OF refl])

lemma perform_parse_calls:
  "parse_calls (snd (perform cps ex buffers opts iteration nbytes nlines s)) =
     parse_calls s + length (calls (perform_loops cps ex buffers opts iteration s))"
  by (simp add: perform_eq [OF refl] perform_loops_facts(2) [OF refl])

lemma perform_errs:
  "errs (snd (perform cps ex buffers opts iteration nbytes nlines s)) = errs s"
  by (simp add: perform_eq [OF refl] perform_loops_facts(4) [OF refl])

lemma no_failure_logged:
  assumes "f = perform_loops cps ex buffers opts iteration s"
  shows "(\<forall>c \<in> set (calls f). call_result c = None) \<longleftrightarrow> err f = None"
proof
  assume all: "\<forall>c \<in> set (calls f). call_result c = None"
  show "err f = None"
  proof (cases "calls f = []")
    case True
    then show ?thesis using perform_loops_facts(9) [OF assms] by simp
  next
    case False
    then have "last (calls f) \<in> set (calls f)" by simp
    with all have "call_result (last (calls f)) = None" by blast
    with False show ?thesis using perform_loops_facts(8) [OF assms] by simp
  qed
next
  assume ok: "err f = None"
  show "\<forall>c \<in> set (calls f). call_result c = None"
  proof (cases "calls f" rule: rev_cases)
    case Nil
    then show ?thesis by simp
  next
    case (snoc ys y)
    then have "call_result y = None"
      using perform_loops_facts(8) [OF assms] ok by simp
    moreover have "\<forall>c \<in> set ys. call_result c = None"
      using perform_loops_facts(7) [OF assms] snoc by (simp add: succeeded_def)
    ultimately show ?thesis using snoc by simp
  qed
qed

subsection \<open>The environment and the results of the calls\<close>

lemma perform_buffers_calls:
  "err f = None \<Longrightarrow> \<exists>new. calls (perform_buffers cps ex opts bs f) = calls f @ new"
  using perform_buffers_advances [of f bs cps ex opts] by (auto simp: advances_def)

lemma perform_buffers_env:
  "err f = None \<Longrightarrow>
   env (st (perform_buffers cps ex opts bs f)) =
     fold (\<lambda>b e. snd (performParse ex b opts e))
       (map call_buffer (drop (length (calls f)) (calls (perform_buffers cps ex opts bs f))))
       (env (st f))"
proof (induction bs arbitrary: f)
  case Nil
  show ?case by simp
next
  case (Cons b bs)
  define f1 where "f1 = snd (measure_body cps (parse_body ex b opts) f)"
  define el where "el = fst (measure_body cps (parse_body ex b opts) f)"
  define c where "c = \<lparr>call_buffer = b, call_wall = fst el, call_cpu = snd el, call_result = err f1\<rparr>"
  define f2 where "f2 = f1\<lparr>calls := calls f1 @ [c]\<rparr>"
  define f3 where "f3 = f2\<lparr>tDuration := tDuration f2 + fst el, cDuration := cDuration f2 + snd el\<rparr>"
  have unfold: "perform_buffers cps ex opts (b # bs) f =
      (if err f2 \<noteq> None then f2 else perform_buffers cps ex opts bs f3)"
    by (simp add: f1_def el_def c_def f2_def f3_def Let_def split: prod.splits)
  have c2: "calls f2 = calls f @ [c]"
    by (simp add: f2_def f1_def measure_body_eq parse_body_fields)
  have e2: "env (st f2) = snd (performParse ex b opts (env (st f)))"
    by (simp add: f2_def f1_def measure_body_eq parse_body_fields)
  have cb: "call_buffer c = b"
    by (simp add: c_def)
  show ?case
  proof (cases "err f2 = None")
    case False
    then show ?thesis
      unfolding unfold using c2 e2 cb by simp
  next
    case True
    have e3: "err f3 = None" using True by (simp add: f3_def)
    have c3: "calls f3 = calls f @ [c]" using c2 by (simp add: f3_def)
    have v3: "env (st f3) = snd (performParse ex b opts (env (st f)))" using e2 by (simp add: f3_def)
    obtain new where n: "calls (perform_buffers cps ex opts bs f3) = calls f3 @ new"
      using perform_buffers_calls [OF e3] by blast
    have d3: "drop (length (calls f3)) (calls (perform_buffers cps ex opts bs f3)) = new"
      using n by simp
    have d0: "drop (length (calls f)) (calls (perform_buffers cps ex opts bs f3)) = c # new"
      using n c3 by simp
    have "env (st (perform_buffers cps ex opts bs f3)) =
        fold (\<lambda>b e. snd (performParse ex b opts e)) (map call_buffer new) (env (st f3))"
      using Cons.IH [OF e3] unfolding d3 .
    then show ?thesis
      unfolding unfold using True d0 v3 cb by simp
  qed
qed

lemma perform_iterations_calls:
  "err f = None \<Longrightarrow> \<exists>new. calls (perform_iterations cps ex opts buffers iteration i f) = calls f @ new"
  using perform_iterations_advances [of f iteration i buffers cps ex opts] by (auto simp: advances_def)

lemma perform_iterations_env:
  "err f = None \<Longrightarrow>
   env (st (perform_iterations cps ex opts buffers iteration i f)) =
     fold (\<lambda>b e. snd (performParse ex b opts e))
       (map call_buffer (drop (length (calls f)) (calls (perform_iterations cps ex opts buffers iteration i f))))
       (env (st f))"
proof (induction cps ex opts buffers iteration i f rule: perform_iterations.induct)
  case (1 cps ex opts buffers iteration i f)
  show ?case
  proof (cases "i < iteration")
    case False
    then have "perform_iterations cps ex opts buffers iteration i f = f"
      by (subst perform_iterations.simps) simp
    then show ?thesis by simp
  next
    case True
    define f' where "f' = perform_buffers cps ex opts buffers f"
    obtain n1 where n1: "calls f' = calls f @ n1"
      unfolding f'_def using perform_buffers_calls [OF "1.prems"] by blast
    have v1: "env (st f') = fold (\<lambda>b e. snd (performParse ex b opts e)) (map call_buffer n1) (env (st f))"
      using perform_buffers_env [OF "1.prems", of cps ex opts buffers] n1 unfolding f'_def by simp
    show ?thesis
    proof (cases "err f' = None")
      case bad: False
      with True have res: "perform_iterations cps ex opts buffers iteration i f = f'"
        by (subst perform_iterations.simps) (simp add: f'_def Let_def)
      show ?thesis
        unfolding res using n1 v1 by simp
    next
      case ok: True
      with True have res: "perform_iterations cps ex opts buffers iteration i f =
          perform_iterations cps ex opts buffers iteration (i + 1) f'"
        by (subst perform_iterations.simps) (simp add: f'_def Let_def)
      obtain n2 where n2: "calls (perform_iterations cps ex opts buffers iteration (i + 1) f') = calls f' @ n2"
        using perform_iterations_calls [OF ok] by blast
      have "env (st (perform_iterations cps ex opts buffers iteration (i + 1) f')) =
          fold (\<lambda>b e. snd (performParse ex b opts e)) (map call_buffer n2) (env (st f'))"
        using "1.IH" [OF True f'_def _ ok] ok n2 by simp
      then show ?thesis
        unfolding res using n1 n2 v1 by simp
    qed
  qed
qed

lemma perform_loops_env:
  "env (st (perform_loops cps ex buffers opts iteration s)) =
     fold (\<lambda>b e. snd (performParse ex b opts e))
       (map call_buffer (calls (perform_loops cps ex buffers opts iteration s))) (env s)"
proof -
  have e: "err (perform_enter ex s) = None"
    by (simp add: perform_enter_def)
  show ?thesis
    using perform_iterations_env [OF e, of cps ex opts buffers iteration 0]
    by (simp add: perform_loops_def perform_enter_def)
qed

lemma perform_env:
  "env (snd (perform cps ex buffers opts iteration nbytes nlines s)) =
     env (st (perform_loops cps ex buffers opts iteration s))"
  by (simp add: perform_eq [OF refl])


lemma perform_buffers_results:
  "err f = None \<Longrightarrow>
   map call_result (drop (length (calls f)) (calls (perform_buffers cps ex opts bs f))) =
     parse_results ex opts
       (map call_buffer (drop (length (calls f)) (calls (perform_buffers cps ex opts bs f))))
       (env (st f))"
proof (induction bs arbitrary: f)
  case Nil
  show ?case by simp
next
  case (Cons b bs)
  define f1 where "f1 = snd (measure_body cps (parse_body ex b opts) f)"
  define el where "el = fst (measure_body cps (parse_body ex b opts) f)"
  define c where "c = \<lparr>call_buffer = b, call_wall = fst el, call_cpu = snd el, call_result = err f1\<rparr>"
  define f2 where "f2 = f1\<lparr>calls := calls f1 @ [c]\<rparr>"
  define f3 where "f3 = f2\<lparr>tDuration := tDuration f2 + fst el, cDuration := cDuration f2 + snd el\<rparr>"
  have unfold: "perform_buffers cps ex opts (b # bs) f =
      (if err f2 \<noteq> None then f2 else perform_buffers cps ex opts bs f3)"
    by (simp add: f1_def el_def c_def f2_def f3_def Let_def split: prod.splits)
  have c2: "calls f2 = calls f @ [c]"
    by (simp add: f2_def f1_def measure_body_eq parse_body_fields)
  have e2: "env (st f2) = snd (performParse ex b opts (env (st f)))"
    by (simp add: f2_def f1_def measure_body_eq parse_body_fields)
  have cb: "call_buffer c = b"
    by (simp add: c_def)
  have cr: "call_result c = fst (performParse ex b opts (env (st f)))"
    by (simp add: c_def f1_def measure_body_eq parse_body_fields)
  show ?case
  proof (cases "err f2 = None")
    case False
    then show ?thesis
      unfolding unfold using c2 cb cr by simp
  next
    case True
    have e3: "err f3 = None" using True by (simp add: f3_def)
    have c3: "calls f3 = calls f @ [c]" using c2 by (simp add: f3_def)
    have v3: "env (st f3) = snd (performParse ex b opts (env (st f)))" using e2 by (simp add: f3_def)
    obtain new where n: "calls (perform_buffers cps ex opts bs f3) = calls f3 @ new"
      using perform_buffers_calls [OF e3] by blast
    have d3: "drop (length (calls f3)) (calls (perform_buffers cps ex opts bs f3)) = new"
      using n by simp
    have d0: "drop (length (calls f)) (calls (perform_buffers cps ex opts bs f3)) = c # new"
      using n c3 by simp
    have "map call_result new = parse_results ex opts (map call_buffer new) (env (st f3))"
      using Cons.IH [OF e3] unfolding d3 .
    then show ?thesis
      unfolding unfold using True d0 v3 cb cr by simp
  qed
qed

lemma parse_results_append:
  "parse_results ex opts (xs @ ys) e =
     parse_results ex opts xs e @
     parse_results ex opts ys (fold (\<lambda>b e. snd (performParse ex b opts e)) xs e)"
  by (induction xs arbitrary: e) simp_all

lemma perform_iterations_results:
  "err f = None \<Longrightarrow>
   map call_result (drop (length (calls f)) (calls (perform_iterations cps ex opts buffers iteration i f))) =
     parse_results ex opts
       (map call_buffer (drop (length (calls f)) (calls (perform_iterations cps ex opts buffers iteration i f))))
       (env (st f))"
proof (induction cps ex opts buffers iteration i f rule: perform_iterations.induct)
  case (1 cps ex opts buffers iteration i f)
  show ?case
  proof (cases "i < iteration")
    case False
    then have "perform_iterations cps ex opts buffers iteration i f = f"
      by (subst perform_iterations.simps) simp
    then show ?thesis by simp
  next
    case True
    define f' where "f' = perform_buffers cps ex opts buffers f"
    obtain n1 where n1: "calls f' = calls f @ n1"
      unfolding f'_def using perform_buffers_calls [OF "1.prems"] by blast
    have v1: "env (st f') = fold (\<lambda>b e. snd (performParse ex b opts e)) (map call_buffer n1) (env (st f))"
      using perform_buffers_env [OF "1.prems", of cps ex opts buffers] n1 unfolding f'_def by simp
    have r1: "map call_result n1 = parse_results ex opts (map call_buffer n1) (env (st f))"
      using perform_buffers_results [OF "1.prems", of cps ex opts buffers] n1 unfolding f'_def by simp
    show ?thesis
    proof (cases "err f' = None")
      case bad: False
      with True have res: "perform_iterations cps ex opts buffers iteration i f = f'"
        by (subst perform_iterations.simps) (simp add: f'_def Let_def)
      show ?thesis
        unfolding res using n1 r1 by simp
    next
      case ok: True
      with True have res: "perform_iterations cps ex opts buffers iteration i f =
          perform_iterations cps ex opts buffers iteration (i + 1) f'"
        by (subst perform_iterations.simps) (simp add: f'_def Let_def)
      obtain n2 where n2: "calls (perform_iterations cps ex opts buffers iteration (i + 1) f') = calls f' @ n2"
        using perform_iterations_calls [OF ok] by blast
      have "map call_result n2 = parse_results ex opts (map call_buffer n2) (env (st f'))"
        using "1.IH" [OF True f'_def _ ok] ok n2 by simp
      then show ?thesis
        unfolding res using n1 n2 v1 r1 by (simp add: parse_results_append)
    qed
  qed
qed

lemma perform_loops_results:
  "map call_result (calls (perform_loops cps ex buffers opts iteration s)) =
     parse_results ex opts
       (map call_buffer (calls (perform_loops cps ex buffers opts iteration s))) (env s)"
proof -
  have e: "err (perform_enter ex s) = None"
    by (simp add: perform_enter_def)
  show ?thesis
    using perform_iterations_results [OF e, of cps ex opts buffers iteration 0]
    by (simp add: perform_loops_def perform_enter_def)
qed

subsection \<open>The number of timed calls\<close>

text \<open>
  Claim C2. The timing probe runs its operation exactly once: the state it leaves is the
  state that one run of the operation leaves; around a parse, the environment it leaves is
  the one that a single call of \<^verbatim>\<open>performParse\<close> leaves, \<^verbatim>\<open>err\<close> holds what that call
  returned, and the count of invocations has grown by one. When no timed call of a run of
  \<^verbatim>\<open>perform\<close> fails, the run makes \<open>iteration * length buffers\<close> of them, for every
  executor, corpus, options value and iteration count: the count of invocations grows by
  that number, the buffers parsed are the corpus, in its order, once per iteration, the
  results logged are those of \<^verbatim>\<open>performParse\<close> on these buffers, and the environment
  \<^verbatim>\<open>perform\<close> leaves is the one obtained by applying \<^verbatim>\<open>performParse\<close> to each of these
  buffers in turn, once.
\<close>

theorem perform_call_count:
  fixes s :: "'x state" and f0 :: "'x frame"
  assumes "f = perform_loops cps ex buffers opts iteration s"
    and "\<forall>c \<in> set (calls f). call_result c = None"
  shows "snd (measure_body cps body f0) = body f0
     \<and> parse_calls (st (snd (measure_body cps (parse_body ex b opts) f0))) = Suc (parse_calls (st f0))
     \<and> env (st (snd (measure_body cps (parse_body ex b opts) f0))) =
         snd (performParse ex b opts (env (st f0)))
     \<and> err (snd (measure_body cps (parse_body ex b opts) f0)) =
         fst (performParse ex b opts (env (st f0)))
     \<and> parse_calls (snd (perform cps ex buffers opts iteration nbytes nlines s)) =
         parse_calls s + unat iteration * length buffers
     \<and> length (calls f) = unat iteration * length buffers
     \<and> map call_buffer (calls f) = concat (replicate (unat iteration) buffers)
     \<and> map call_result (calls f) =
         parse_results ex opts (concat (replicate (unat iteration) buffers)) (env s)
     \<and> env (snd (perform cps ex buffers opts iteration nbytes nlines s)) =
         fold (\<lambda>b e. snd (performParse ex b opts e))
           (concat (replicate (unat iteration) buffers)) (env s)"
proof -
  have ok: "err f = None"
    using assms(2) no_failure_logged [OF assms(1)] by simp
  then have len: "length (calls f) = unat iteration * length buffers"
    using perform_loops_facts(10) [OF assms(1)] by simp
  have "length (concat (replicate (unat iteration) buffers)) = unat iteration * length buffers"
    by (induction "unat iteration") (simp_all add: length_concat sum_list_replicate)
  with len have bufs: "map call_buffer (calls f) = concat (replicate (unat iteration) buffers)"
    using perform_loops_facts(1) [OF assms(1)] by simp
  have m1: "snd (measure_body cps body f0) = body f0"
    by (simp add: measure_body_eq)
  have m2: "parse_calls (st (snd (measure_body cps (parse_body ex b opts) f0))) = Suc (parse_calls (st f0))"
    by (simp add: measure_body_eq parse_body_fields)
  have m3: "env (st (snd (measure_body cps (parse_body ex b opts) f0))) =
         snd (performParse ex b opts (env (st f0)))"
    by (simp add: measure_body_eq parse_body_fields)
  have m4: "err (snd (measure_body cps (parse_body ex b opts) f0)) =
         fst (performParse ex b opts (env (st f0)))"
    by (simp add: measure_body_eq parse_body_fields)
  have p: "parse_calls (snd (perform cps ex buffers opts iteration nbytes nlines s)) =
         parse_calls s + unat iteration * length buffers"
    using perform_parse_calls [of cps ex buffers opts iteration nbytes nlines s] len assms(1) by simp
  have r: "map call_result (calls f) =
         parse_results ex opts (concat (replicate (unat iteration) buffers)) (env s)"
    using perform_loops_results [of cps ex buffers opts iteration s] bufs assms(1) by simp
  have v: "env (snd (perform cps ex buffers opts iteration nbytes nlines s)) =
         fold (\<lambda>b e. snd (performParse ex b opts e))
           (concat (replicate (unat iteration) buffers)) (env s)"
    using perform_loops_env [of cps ex buffers opts iteration s] bufs assms(1)
    by (simp add: perform_env)
  show ?thesis
    using m1 m2 m3 m4 p len bufs r v by blast
qed

theorem perform_call_count_witness:
  "map call_result (calls (perform_loops 1000000 quick_executor [file_a, file_b] {} 3 example_state)) =
     [None, None, None, None, None, None]
   \<and> parse_calls (snd (perform 1000000 quick_executor [file_a, file_b] {} 3 27 3 example_state)) = 6
   \<and> map call_buffer (calls (perform_loops 1000000 quick_executor [file_a, file_b] {} 3 example_state)) =
     [file_a, file_b, file_a, file_b, file_a, file_b]
   \<and> env (snd (perform 1000000 quick_executor [file_a, file_b] {} 3 27 3 example_state)) =
     \<lparr>cpu_clock = 11400, steady_clock = 11400000, hidden = ()\<rparr>"
proof -
  have r: "map call_result (calls (perform_loops 1000000 quick_executor [file_a, file_b] {} 3 example_state)) =
     [None, None, None, None, None, None]"
    by code_simp
  have "set (map call_result (calls (perform_loops 1000000 quick_executor [file_a, file_b] {} 3 example_state)))
      = {None}"
    unfolding r by simp
  then have h: "\<forall>c \<in> set (calls (perform_loops 1000000 quick_executor [file_a, file_b] {} 3 example_state)).
      call_result c = None"
    by auto
  have z: "parse_calls example_state = 0"
      "env example_state = \<lparr>cpu_clock = 0, steady_clock = 0, hidden = ()\<rparr>"
    by (simp_all add: example_state_def)
  have three: "unat (3 :: 32 word) = 3"
    by simp
  have q: "performParse quick_executor b opts e =
      (None, e\<lparr>cpu_clock := cpu_clock e + 1900, steady_clock := steady_clock e + 1900000\<rparr>)" for b opts e
    by (simp add: quick_executor_def)
  show ?thesis
    using r perform_call_count [OF refl h, where nbytes = 27 and nlines = 3] z
    unfolding three by (simp add: numeral_3_eq_3 q)
qed

lemma perform_iterations_no_buffers:
  "err f = None \<Longrightarrow> perform_iterations cps ex opts [] iteration i f = f"
proof (induction cps ex opts "[] :: buffer list" iteration i f rule: perform_iterations.induct)
  case (1 cps ex opts iteration i f)
  show ?case
  proof (cases "i < iteration")
    case True
    with "1.prems" have "perform_iterations cps ex opts [] iteration i f =
        perform_iterations cps ex opts [] iteration (i + 1) f"
      by (subst perform_iterations.simps) simp
    also have "\<dots> = f"
      using "1.hyps" [OF True refl] "1.prems" by simp
    finally show ?thesis .
  next
    case False
    then show ?thesis
      by (subst perform_iterations.simps) simp
  qed
qed

lemma perform_iterations_zero:
  "perform_iterations cps ex opts buffers 0 i f = f"
  by (subst perform_iterations.simps) simp

lemma duration_cast_ms_zero: "duration_cast_ms 0 = 0"
  by (simp add: duration_cast_ms_def cxx_sdiv_def)

subsection \<open>An empty corpus, or no iteration\<close>

text \<open>
  Claim C6. For every executor and options value, \<^verbatim>\<open>perform\<close> on an empty corpus or with an
  iteration count of zero returns success, changes nothing but the output, and writes a
  report with a wall time of 0 ms, a CPU time of 0 ms and no throughput line.
\<close>

theorem perform_nothing_to_do:
  assumes "buffers = [] \<or> iteration = 0"
  shows "perform cps ex buffers opts iteration nbytes nlines s =
     (None, s\<lparr>outs := outs s @ [Dashes, Parser (name ex), WallClockTimeMs 0, CpuTimeMs 0]\<rparr>)"
proof -
  have e: "err (perform_enter ex s) = None"
    by (simp add: perform_enter_def)
  have "perform_iterations cps ex opts buffers iteration 0 (perform_enter ex s) = perform_enter ex s"
    using assms perform_iterations_zero perform_iterations_no_buffers [OF e] by metis
  then have "perform_loops cps ex buffers opts iteration s = perform_enter ex s"
    by (simp add: perform_loops_def)
  then show ?thesis
    by (simp add: perform_def perform_enter_def duration_cast_ms_zero)
qed

theorem perform_nothing_to_do_witness:
  "perform 1000000 picky_executor [] {} 5 0 0 example_state =
     (None, example_state\<lparr>outs := [Dashes, Parser ''picky'', WallClockTimeMs 0, CpuTimeMs 0]\<rparr>)
   \<and> perform 1000000 picky_executor [file_bad] {} 0 4 0 example_state =
     (None, example_state\<lparr>outs := [Dashes, Parser ''picky'', WallClockTimeMs 0, CpuTimeMs 0]\<rparr>)"
  using perform_nothing_to_do [of "[]" 5 1000000 picky_executor "{}" 0 0 example_state]
    perform_nothing_to_do [of "[file_bad]" 0 1000000 picky_executor "{}" 4 0 example_state]
  by (simp add: example_state_def picky_executor_def)


subsection \<open>When the throughput lines are written\<close>

text \<open>
  Claim C3. In a run of \<^verbatim>\<open>perform\<close> that completes, a throughput line is written if and only
  if the accumulated CPU time is greater than zero; then both lines are written, the
  byte line before the line line, and when the accumulated CPU time is zero neither is
  written (no line with the value zero stands in for them).
\<close>

theorem throughput_lines_iff:
  fixes s :: "'x state"
  assumes "f = perform_loops cps ex buffers opts iteration s"
    and "err f = None"
    and "s' = snd (perform cps ex buffers opts iteration nbytes nlines s)"
  shows "((\<exists>l \<in> set (written s s'). is_throughput l) \<longleftrightarrow> 0 < cDuration f)
     \<and> (0 < cDuration f \<longrightarrow>
          filter is_throughput (written s s') =
            [ThroughputBytePerSec (nbytes * word_of_int period_den div word_of_int (cDuration f)),
             ThroughputLinePerSec (nlines * word_of_int period_den div word_of_int (cDuration f))])
     \<and> (cDuration f = 0 \<longrightarrow> filter is_throughput (written s s') = [])"
proof -
  have w: "written s s' =
     [Dashes, Parser (name ex), WallClockTimeMs (duration_cast_ms (tDuration f)),
      CpuTimeMs (duration_cast_ms (cDuration f))] @
     (if cDuration f > 0
      then [ThroughputBytePerSec (nbytes * word_of_int period_den div word_of_int (cDuration f)),
            ThroughputLinePerSec (nlines * word_of_int period_den div word_of_int (cDuration f))]
      else [])"
    unfolding assms(3) perform_written [OF assms(1)] using assms(2) by simp
  show ?thesis
    unfolding w by auto
qed

theorem throughput_lines_iff_witness:
  "filter is_throughput
     (written example_state (snd (perform 1000000 quick_executor [file_a] {} 1 10 1 example_state))) =
     [ThroughputBytePerSec 5263, ThroughputLinePerSec 526]
   \<and> filter is_throughput
     (written example_state (snd (perform 1000000 instant_executor [file_a] {} 1 10 1 example_state))) = []"
proof -
  have e1: "err (perform_loops 1000000 quick_executor [file_a] {} 1 example_state) = None"
    by code_simp
  have c1: "cDuration (perform_loops 1000000 quick_executor [file_a] {} 1 example_state) = 1900000"
    by code_simp
  have e2: "err (perform_loops 1000000 instant_executor [file_a] {} 1 example_state) = None"
    by code_simp
  have c2: "cDuration (perform_loops 1000000 instant_executor [file_a] {} 1 example_state) = 0"
    by code_simp
  have v1: "(10 :: 64 word) * word_of_int period_den div word_of_int 1900000 = 5263"
    by (simp add: period_den_def)
  have v2: "(1 :: 64 word) * word_of_int period_den div word_of_int 1900000 = 526"
    by (simp add: period_den_def)
  show ?thesis
    using throughput_lines_iff [OF refl e1 refl, where nbytes = 10 and nlines = 1]
      throughput_lines_iff [OF refl e2 refl, where nbytes = 10 and nlines = 1]
    unfolding c1 c2 using v1 v2 by simp
qed


lemma filter_succeeded_butlast:
  assumes "\<forall>c \<in> set (butlast xs). succeeded c" and "xs \<noteq> []" and "\<not> succeeded (last xs)"
  shows "filter succeeded xs = butlast xs"
proof -
  have "xs = butlast xs @ [last xs]"
    using assms(2) by simp
  then have "filter succeeded xs = filter succeeded (butlast xs) @ filter succeeded [last xs]"
    by (metis filter_append)
  also have "\<dots> = butlast xs"
    using assms(1,3) by simp
  finally show ?thesis .
qed

subsection \<open>A failing parse call\<close>

text \<open>
  Claim C4. If a timed call of a run of \<^verbatim>\<open>perform\<close> fails, it is the last call the run
  makes: every call before it succeeded, the calls made are a prefix of the corpus repeated
  once per iteration, the count of \<^verbatim>\<open>performParse\<close> invocations has grown by the number
  of these calls only, \<^verbatim>\<open>perform\<close> returns the failure of that call, and the two totals
  are the sums of the durations of the calls before it, without the durations measured for
  the failing call.
\<close>

theorem perform_stops_at_failure:
  fixes s :: "'x state"
  assumes "f = perform_loops cps ex buffers opts iteration s"
    and "c \<in> set (calls f)"
    and "call_result c = Some e"
  shows "last (calls f) = c
     \<and> (\<forall>d \<in> set (butlast (calls f)). call_result d = None)
     \<and> map call_buffer (calls f) =
         take (length (calls f)) (concat (replicate (unat iteration) buffers))
     \<and> fst (perform cps ex buffers opts iteration nbytes nlines s) = Some e
     \<and> parse_calls (snd (perform cps ex buffers opts iteration nbytes nlines s)) =
         parse_calls s + length (calls f)
     \<and> tDuration f = sum_list (map call_wall (butlast (calls f)))
     \<and> cDuration f = sum_list (map call_cpu (butlast (calls f)))"
proof -
  from assms(2) have ne: "calls f \<noteq> []"
    by auto
  have bl: "\<forall>d \<in> set (butlast (calls f)). succeeded d"
    using assms(1) by (rule perform_loops_facts(7))
  have "c \<notin> set (butlast (calls f))"
    using bl assms(3) by (auto simp: succeeded_def)
  moreover have "set (calls f) = set (butlast (calls f)) \<union> {last (calls f)}"
    using ne by (metis append_butlast_last_id list.set(1) list.set(2) set_append)
  ultimately have lst: "last (calls f) = c"
    using assms(2) by auto
  have "call_result (last (calls f)) = err f"
    using perform_loops_facts(8) [OF assms(1)] ne by simp
  with lst assms(3) have ef: "err f = Some e"
    by simp
  have fs: "fst (perform cps ex buffers opts iteration nbytes nlines s) = Some e"
    using ef assms(1) by (simp add: perform_fst)
  have pc: "parse_calls (snd (perform cps ex buffers opts iteration nbytes nlines s)) =
         parse_calls s + length (calls f)"
    using assms(1) by (simp add: perform_parse_calls)
  have "\<not> succeeded (last (calls f))"
    using lst assms(3) by (simp add: succeeded_def)
  with bl ne have fb: "filter succeeded (calls f) = butlast (calls f)"
    by (rule filter_succeeded_butlast)
  have t: "tDuration f = sum_list (map call_wall (butlast (calls f)))"
    using perform_loops_facts(5) [OF assms(1)] fb by simp
  have cd: "cDuration f = sum_list (map call_cpu (butlast (calls f)))"
    using perform_loops_facts(6) [OF assms(1)] fb by simp
  have bufs: "map call_buffer (calls f) =
         take (length (calls f)) (concat (replicate (unat iteration) buffers))"
    using assms(1) by (rule perform_loops_facts(1))
  from bl have bl': "\<forall>d \<in> set (butlast (calls f)). call_result d = None"
    by (simp add: succeeded_def)
  show ?thesis
    using lst bl' bufs fs pc t cd by blast
qed

theorem perform_stops_at_failure_witness:
  "calls (perform_loops 1000000 picky_executor [file_a, file_bad, file_b] {} 2 example_state) =
     [\<lparr>call_buffer = file_a, call_wall = 9000, call_cpu = 7000, call_result = None\<rparr>,
      \<lparr>call_buffer = file_bad, call_wall = 9000, call_cpu = 7000,
        call_result = Some (StringError ''syntax error'')\<rparr>]
   \<and> fst (perform 1000000 picky_executor [file_a, file_bad, file_b] {} 2 31 3 example_state) =
       Some (StringError ''syntax error'')
   \<and> parse_calls (snd (perform 1000000 picky_executor [file_a, file_bad, file_b] {} 2 31 3 example_state)) = 2
   \<and> tDuration (perform_loops 1000000 picky_executor [file_a, file_bad, file_b] {} 2 example_state) = 9000
   \<and> cDuration (perform_loops 1000000 picky_executor [file_a, file_bad, file_b] {} 2 example_state) = 7000"
proof -
  have cs: "calls (perform_loops 1000000 picky_executor [file_a, file_bad, file_b] {} 2 example_state) =
     [\<lparr>call_buffer = file_a, call_wall = 9000, call_cpu = 7000, call_result = None\<rparr>,
      \<lparr>call_buffer = file_bad, call_wall = 9000, call_cpu = 7000,
        call_result = Some (StringError ''syntax error'')\<rparr>]"
    by code_simp
  have mem: "\<lparr>call_buffer = file_bad, call_wall = 9000, call_cpu = 7000,
        call_result = Some (StringError ''syntax error'')\<rparr>
      \<in> set (calls (perform_loops 1000000 picky_executor [file_a, file_bad, file_b] {} 2 example_state))"
    unfolding cs by simp
  have res: "call_result \<lparr>call_buffer = file_bad, call_wall = 9000, call_cpu = 7000,
        call_result = Some (StringError ''syntax error'')\<rparr> = Some (StringError ''syntax error'')"
    by simp
  have z: "parse_calls example_state = 0"
    by (simp add: example_state_def)
  show ?thesis
    using perform_stops_at_failure [OF refl mem res, where nbytes = 31 and nlines = 3] z
    unfolding cs by simp
qed

lemma cxx_sdiv_sgn: "cxx_sdiv a b = sgn a * sgn b * (\<bar>a\<bar> div \<bar>b\<bar>)"
  by (auto simp: cxx_sdiv_def sgn_if)

subsection \<open>The two times of the report\<close>

text \<open>
  Claim C7, as amended. In a run of \<^verbatim>\<open>perform\<close> that completes, the first four lines
  written are the rule, the parser's name, the accumulated wall time and the accumulated
  CPU time, each time as its count of nanoseconds divided by \<open>1000000\<close> and truncated
  towards zero (\<^verbatim>\<open>std::chrono::duration_cast\<close>); for a count that is not negative this is
  the number of whole milliseconds in it.
\<close>

theorem report_times_truncated:
  fixes s :: "'x state"
  assumes "f = perform_loops cps ex buffers opts iteration s"
    and "err f = None"
    and "s' = snd (perform cps ex buffers opts iteration nbytes nlines s)"
  shows "take 4 (written s s') =
     [Dashes, Parser (name ex),
      WallClockTimeMs (sgn (tDuration f) * (\<bar>tDuration f\<bar> div 1000000)),
      CpuTimeMs (sgn (cDuration f) * (\<bar>cDuration f\<bar> div 1000000))]
    \<and> (0 \<le> tDuration f \<longrightarrow> WallClockTimeMs (tDuration f div 1000000) \<in> set (written s s'))
    \<and> (0 \<le> cDuration f \<longrightarrow> CpuTimeMs (cDuration f div 1000000) \<in> set (written s s'))"
proof -
  have w: "written s s' =
     [Dashes, Parser (name ex), WallClockTimeMs (duration_cast_ms (tDuration f)),
      CpuTimeMs (duration_cast_ms (cDuration f))] @
     (if cDuration f > 0
      then [ThroughputBytePerSec (nbytes * word_of_int period_den div word_of_int (cDuration f)),
            ThroughputLinePerSec (nlines * word_of_int period_den div word_of_int (cDuration f))]
      else [])"
    unfolding assms(3) perform_written [OF assms(1)] using assms(2) by simp
  have d: "duration_cast_ms x = sgn x * (\<bar>x\<bar> div 1000000)" for x
    by (simp add: duration_cast_ms_def cxx_sdiv_sgn)
  have p: "0 \<le> x \<Longrightarrow> sgn x * (\<bar>x\<bar> div 1000000) = x div 1000000" for x :: int
    by (cases "x = 0") (simp_all add: sgn_if)
  show ?thesis
    unfolding w d using p by auto
qed

theorem report_times_truncated_witness:
  "take 4 (written example_state (snd (perform 1000000 quick_executor [file_a] {} 1 10 1 example_state))) =
     [Dashes, Parser ''quick'', WallClockTimeMs 1, CpuTimeMs 1]
   \<and> tDuration (perform_loops 1000000 quick_executor [file_a] {} 1 example_state) = 1900000
   \<and> cDuration (perform_loops 1000000 quick_executor [file_a] {} 1 example_state) = 1900000"
proof -
  have e1: "err (perform_loops 1000000 quick_executor [file_a] {} 1 example_state) = None"
    by code_simp
  have t1: "tDuration (perform_loops 1000000 quick_executor [file_a] {} 1 example_state) = 1900000"
    by code_simp
  have c1: "cDuration (perform_loops 1000000 quick_executor [file_a] {} 1 example_state) = 1900000"
    by code_simp
  show ?thesis
    using report_times_truncated [OF refl e1 refl, where nbytes = 10 and nlines = 1]
    unfolding t1 c1 by (simp add: quick_executor_def)
qed

text \<open>
  Claim C7, as stated, fails: a run whose accumulated wall and CPU times are both
  1900000 ns writes 1 ms for each, while 1.9 ms rounded to milliseconds is 2 ms.
\<close>

theorem report_times_not_rounded:
  "tDuration (perform_loops 1000000 quick_executor [file_a] {} 1 example_state) = 1900000
   \<and> spec_round_ms 1900000 = 2
   \<and> WallClockTimeMs (spec_round_ms 1900000) \<notin>
       set (written example_state (snd (perform 1000000 quick_executor [file_a] {} 1 10 1 example_state)))
   \<and> CpuTimeMs (spec_round_ms 1900000) \<notin>
       set (written example_state (snd (perform 1000000 quick_executor [file_a] {} 1 10 1 example_state)))
   \<and> written example_state (snd (perform 1000000 quick_executor [file_a] {} 1 10 1 example_state)) =
       [Dashes, Parser ''quick'', WallClockTimeMs 1, CpuTimeMs 1,
        ThroughputBytePerSec 5263, ThroughputLinePerSec 526]"
  by code_simp

lemma main_eq:
  assumes "loadSources depth pf (InputPaths options) [] = Some buffers"
    and "count_corpus buffers (0, 0) = (bc, lc)"
    and "run_executors pf (Executors options) buffers
           (if SkipBodiesOpt options then {SkipBodies} else {}) (Iterations options) bc lc
           (s\<lparr>outs := outs s @ [FileCount (length buffers), TotalBytes bc, TotalLines lc,
                                 IterationsLine (Iterations options)]\<rparr>) = (r, s2)"
  shows "swift_parse_test_main depth pf options s =
     Some (case r of
             Some e \<Rightarrow> (1, s2\<lparr>errs := errs s2 @ [''error: '' @ message e]\<rparr>)
           | None \<Rightarrow> (0, s2))"
  using assms by (simp add: swift_parse_test_main_def split: option.splits)

lemma example_load: "loadSources 2 example_platform (InputPaths example_options) [] = Some [file_a]"
  by code_simp

lemma example_count: "count_corpus [file_a] (0, 0) = (10, 1)"
  by code_simp

lemma example_run:
  "run_executors example_platform (Executors example_options) [file_a]
     (if SkipBodiesOpt example_options then {SkipBodies} else {}) (Iterations example_options) 10 1
     (example_state\<lparr>outs := outs example_state @
        [FileCount (length [file_a]), TotalBytes 10, TotalLines 1,
         IterationsLine (Iterations example_options)]\<rparr>) =
   (None,
    \<lparr>env = \<lparr>cpu_clock = 1000000, steady_clock = 1200000000, hidden = ()\<rparr>,
     outs = [FileCount 1, TotalBytes 10, TotalLines 1, IterationsLine 2,
               Dashes, Parser ''libParse'', WallClockTimeMs 1200, CpuTimeMs 1000,
               ThroughputBytePerSec 10, ThroughputLinePerSec 1],
     errs = [], parse_calls = 2\<rparr>)"
  by code_simp

subsection \<open>The throughput and the number of iterations\<close>

text \<open>
  Claim C1 on a run of the driver: one file of 10 bytes and 1 line, parsed by libParse in
  2 iterations that take one second of CPU time together. The claim asks for
  \<open>10 * 2 / 1 = 20\<close> byte/s and \<open>1 * 2 / 1 = 2\<close> line/s; the lines written say 10 and 1, the
  totals of the corpus divided by the CPU time of all iterations.
\<close>

theorem throughput_not_scaled_by_iterations:
  "swift_parse_test_main 2 example_platform example_options example_state =
     Some (0,
       \<lparr>env = \<lparr>cpu_clock = 1000000, steady_clock = 1200000000, hidden = ()\<rparr>,
        outs = [FileCount 1, TotalBytes 10, TotalLines 1, IterationsLine 2,
                Dashes, Parser ''libParse'', WallClockTimeMs 1200, CpuTimeMs 1000,
                ThroughputBytePerSec 10, ThroughputLinePerSec 1],
        errs = [], parse_calls = 2\<rparr>)
   \<and> spec_throughput 10 2 1000000000 = 20
   \<and> spec_throughput 1 2 1000000000 = 2"
  using main_eq [OF example_load example_count example_run]
  by (simp add: spec_throughput_def)

subsection \<open>Loading the corpus: helper facts\<close>

lemma for_each_path_append:
  "for_each_path g (xs @ ys) bs =
     (case for_each_path g xs bs of None \<Rightarrow> None | Some bs' \<Rightarrow> for_each_path g ys bs')"
  by (induction xs arbitrary: bs) (simp_all split: option.splits)

lemma load_non_directory:
  "\<not> is_directory pf p \<Longrightarrow>
   loadSwiftFilesRecursively (Suc d) pf p buffers =
     Some (if endswith p ''.swift''
           then (case getFile pf p of Some b \<Rightarrow> buffers @ [b] | None \<Rightarrow> buffers)
           else buffers)"
  by (simp split: option.splits)

lemma endswith_iff: "endswith s suffix \<longleftrightarrow> (\<exists>q. s = q @ suffix)"
proof
  assume "endswith s suffix"
  then have "s = take (length s - length suffix) s @ suffix"
    by (metis append_take_drop_id endswith_def)
  then show "\<exists>q. s = q @ suffix" ..
next
  assume "\<exists>q. s = q @ suffix"
  then show "endswith s suffix"
    by (auto simp: endswith_def)
qed

subsection \<open>Paths that cannot be read\<close>

text \<open>
  Claim C8. A path that cannot be read adds no buffer and raises no error, whatever its
  name: a path that is not a directory and that \<^verbatim>\<open>llvm::MemoryBuffer::getFile\<close> fails on, or a
  directory whose iterator yields nothing. Loading a list of paths that holds it gives what
  loading the list without it gives, so the paths before and after it are loaded as usual.
\<close>

theorem unreadable_path_skipped:
  assumes "(\<not> is_directory pf p \<and> getFile pf p = None)
         \<or> (is_directory pf p \<and> directory_entries pf p = [])"
  shows "loadSwiftFilesRecursively (Suc d) pf p buffers = Some buffers
     \<and> loadSources (Suc d) pf (ps @ p # qs) buffers = loadSources (Suc d) pf (ps @ qs) buffers"
proof -
  have one: "loadSwiftFilesRecursively (Suc d) pf p bs = Some bs" for bs
  proof (cases "is_directory pf p")
    case True
    with assms have "directory_entries pf p = []"
      by blast
    with True show ?thesis
      by simp
  next
    case False
    with assms have "getFile pf p = None"
      by blast
    with False show ?thesis
      by (simp add: load_non_directory)
  qed
  have "for_each_path (\<lambda>p bs. loadSwiftFilesRecursively (Suc d) pf p bs) (ps @ p # qs) buffers =
      for_each_path (\<lambda>p bs. loadSwiftFilesRecursively (Suc d) pf p bs) (ps @ qs) buffers"
    unfolding for_each_path_append [of _ ps] using one
    by (simp split: option.splits)
  then show ?thesis
    using one by (simp add: loadSources_def)
qed

theorem unreadable_path_skipped_witness:
  "is_directory example_platform ''src/gone.swift'' = False
   \<and> getFile example_platform ''src/gone.swift'' = None
   \<and> loadSwiftFilesRecursively (Suc 0) example_platform ''src/gone.swift'' [file_b] = Some [file_b]
   \<and> loadSources (Suc 0) example_platform [''b.swift'', ''src/gone.swift'', ''src/a.swift''] [] =
       Some [file_b, file_a]
   \<and> is_directory example_platform ''locked'' = True
   \<and> directory_entries example_platform ''locked'' = []
   \<and> loadSources (Suc 0) example_platform [''b.swift'', ''locked'', ''src/a.swift''] [] =
       Some [file_b, file_a]"
proof -
  have nd: "\<not> is_directory example_platform ''src/gone.swift''"
    by (simp add: example_platform_def)
  have gf: "getFile example_platform ''src/gone.swift'' = None"
    by (simp add: example_platform_def)
  have h1: "(\<not> is_directory example_platform ''src/gone.swift''
        \<and> getFile example_platform ''src/gone.swift'' = None)
      \<or> (is_directory example_platform ''src/gone.swift''
        \<and> directory_entries example_platform ''src/gone.swift'' = [])"
    using nd gf by simp
  have dl: "is_directory example_platform ''locked''"
    by (simp add: example_platform_def)
  have el: "directory_entries example_platform ''locked'' = []"
    by (simp add: example_platform_def)
  have h2: "(\<not> is_directory example_platform ''locked''
        \<and> getFile example_platform ''locked'' = None)
      \<or> (is_directory example_platform ''locked''
        \<and> directory_entries example_platform ''locked'' = [])"
    using dl el by simp
  have rest: "loadSources (Suc 0) example_platform ([''b.swift''] @ [''src/a.swift'']) [] =
      Some [file_b, file_a]"
    by code_simp
  show ?thesis
    using nd gf dl el rest
      unreadable_path_skipped [OF h1, where d = 0 and ps = "[''b.swift'']"
        and qs = "[''src/a.swift'']" and buffers = "[]"]
      unreadable_path_skipped [OF h1, where d = 0 and buffers = "[file_b]"]
      unreadable_path_skipped [OF h2, where d = 0 and ps = "[''b.swift'']"
        and qs = "[''src/a.swift'']" and buffers = "[]"]
    by simp
qed

subsection \<open>Files without the suffix\<close>

text \<open>
  Claim C10. For a path that is not a directory, \<^verbatim>\<open>_loadSwiftFilesRecursively\<close> adds the
  file only when the path ends with \<open>.swift\<close> (and the file can be read); otherwise the
  buffers are left as they are. A file without the suffix that is the only path given is
  left out: the corpus is empty.
\<close>

theorem only_swift_files_loaded:
  assumes "\<not> is_directory pf p"
  shows "(endswith p ''.swift'' \<longleftrightarrow> (\<exists>q. p = q @ ''.swift''))
     \<and> loadSwiftFilesRecursively (Suc d) pf p buffers =
         Some (if endswith p ''.swift''
               then (case getFile pf p of Some b \<Rightarrow> buffers @ [b] | None \<Rightarrow> buffers)
               else buffers)
     \<and> (\<not> endswith p ''.swift'' \<longrightarrow> loadSources (Suc d) pf [p] [] = Some [])"
proof -
  have a: "endswith p ''.swift'' \<longleftrightarrow> (\<exists>q. p = q @ ''.swift'')"
    by (rule endswith_iff)
  have b: "loadSwiftFilesRecursively (Suc d) pf p bs =
         Some (if endswith p ''.swift''
               then (case getFile pf p of Some b \<Rightarrow> bs @ [b] | None \<Rightarrow> bs)
               else bs)" for bs
    using assms by (rule load_non_directory)
  have c: "\<not> endswith p ''.swift'' \<longrightarrow> loadSources (Suc d) pf [p] [] = Some []"
    unfolding loadSources_def using b [of "[]"] by simp
  show ?thesis
    using a b c by blast
qed

theorem only_swift_files_loaded_witness:
  "is_directory example_platform ''src/notes.txt'' = False
   \<and> getFile example_platform ''src/notes.txt'' = Some file_notes
   \<and> endswith ''src/notes.txt'' ''.swift'' = False
   \<and> loadSources (Suc 0) example_platform [''src/notes.txt''] [] = Some []
   \<and> loadSwiftFilesRecursively (Suc 0) example_platform ''src/notes.txt'' [file_b] = Some [file_b]"
proof -
  have nd: "\<not> is_directory example_platform ''src/notes.txt''"
    by (simp add: example_platform_def)
  have gf: "getFile example_platform ''src/notes.txt'' = Some file_notes"
    by (simp add: example_platform_def)
  have ne: "\<not> endswith ''src/notes.txt'' ''.swift''"
    by (simp add: endswith_def)
  show ?thesis
    using nd gf ne
      only_swift_files_loaded [OF nd, where d = 0 and buffers = "[]"]
      only_swift_files_loaded [OF nd, where d = 0 and buffers = "[file_b]"]
    by simp
qed

lemma parser_lines_append: "parser_lines (xs @ ys) = parser_lines xs @ parser_lines ys"
  by (induction xs rule: parser_lines.induct) simp_all

lemma written_append: "outs s' = outs s @ new \<Longrightarrow> written s s' = new"
  by (simp add: written_def)

lemma perform_mode_eq:
  "perform_mode pf m buffers xo it bc lc s =
     perform (CLOCKS_PER_SEC pf) (executor_of pf m) buffers xo it (ucast bc) (ucast lc) s"
  by (cases m) simp_all

lemma perform_mode_outs:
  assumes "perform_mode pf m buffers xo it bc lc s = (r, s')"
  shows "errs s' = errs s"
    and "\<exists>new. outs s' = outs s @ new \<and> parser_lines new = [name (executor_of pf m)]"
proof -
  have s': "s' = snd (perform (CLOCKS_PER_SEC pf) (executor_of pf m) buffers xo it (ucast bc) (ucast lc) s)"
    using assms by (simp add: perform_mode_eq)
  show "errs s' = errs s"
    unfolding s' by (rule perform_errs)
  have "outs s' = outs s @ written s s'"
    unfolding s' perform_written [OF refl] by (simp add: perform_eq [OF refl])
  moreover have "parser_lines (written s s') = [name (executor_of pf m)]"
    unfolding s' perform_written [OF refl] by simp
  ultimately show "\<exists>new. outs s' = outs s @ new \<and> parser_lines new = [name (executor_of pf m)]"
    by blast
qed

lemma run_executors_fail_split:
  "run_executors pf ms buffers xo it bc lc s = (Some e, s') \<Longrightarrow>
   \<exists>pre m post mid. ms = pre @ m # post
     \<and> run_executors pf pre buffers xo it bc lc s = (None, mid)
     \<and> perform_mode pf m buffers xo it bc lc mid = (Some e, s')"
proof (induction ms arbitrary: s)
  case Nil
  then show ?case by simp
next
  case (Cons m ms)
  obtain r s1 where pm: "perform_mode pf m buffers xo it bc lc s = (r, s1)"
    by (cases "perform_mode pf m buffers xo it bc lc s")
  show ?case
  proof (cases r)
    case None
    with pm Cons.prems have "run_executors pf ms buffers xo it bc lc s1 = (Some e, s')"
      by simp
    from Cons.IH [OF this] obtain pre m' post mid where
      sp: "ms = pre @ m' # post"
        "run_executors pf pre buffers xo it bc lc s1 = (None, mid)"
        "perform_mode pf m' buffers xo it bc lc mid = (Some e, s')"
      by blast
    have "m # ms = (m # pre) @ m' # post"
      using sp(1) by simp
    moreover have "run_executors pf (m # pre) buffers xo it bc lc s = (None, mid)"
      using pm None sp(2) by simp
    ultimately show ?thesis
      using sp(3) by blast
  next
    case (Some e')
    with pm Cons.prems have "e' = e" "s1 = s'"
      by simp_all
    with pm Some have "perform_mode pf m buffers xo it bc lc s = (Some e, s')"
      by simp
    moreover have "run_executors pf [] buffers xo it bc lc s = (None, s)"
      by simp
    moreover have "m # ms = [] @ m # ms"
      by simp
    ultimately show ?thesis
      by blast
  qed
qed

lemma run_executors_success:
  "run_executors pf ms buffers xo it bc lc s = (None, s') \<Longrightarrow>
   errs s' = errs s \<and>
   (\<exists>new. outs s' = outs s @ new
      \<and> parser_lines new = map (\<lambda>m. name (executor_of pf m)) ms)"
proof (induction ms arbitrary: s)
  case Nil
  then show ?case by simp
next
  case (Cons m ms)
  obtain r1 s1 where pm: "perform_mode pf m buffers xo it bc lc s = (r1, s1)"
    by (cases "perform_mode pf m buffers xo it bc lc s")
  have e1: "errs s1 = errs s"
    using pm by (rule perform_mode_outs(1))
  obtain n1 where o1: "outs s1 = outs s @ n1" "parser_lines n1 = [name (executor_of pf m)]"
    using perform_mode_outs(2) [OF pm] by blast
  have "r1 = None"
    using pm Cons.prems by (cases r1) simp_all
  with pm Cons.prems have run: "run_executors pf ms buffers xo it bc lc s1 = (None, s')"
    by simp
  from Cons.IH [OF run] obtain n2 where
    ih: "errs s' = errs s1" "outs s' = outs s1 @ n2"
      "parser_lines n2 = map (\<lambda>m. name (executor_of pf m)) ms"
    by blast
  have a: "outs s' = outs s @ (n1 @ n2)"
    using o1(1) ih(2) by simp
  have b: "parser_lines (n1 @ n2) = map (\<lambda>m. name (executor_of pf m)) (m # ms)"
    using o1(2) ih(3) by (simp add: parser_lines_append)
  show ?case
    using e1 ih(1) a b by metis
qed

lemma run_executors_failure:
  assumes "run_executors pf ms buffers xo it bc lc s = (Some e, s')"
  shows "\<exists>pre m post mid new. ms = pre @ m # post
     \<and> run_executors pf pre buffers xo it bc lc s = (None, mid)
     \<and> perform_mode pf m buffers xo it bc lc mid = (Some e, s')
     \<and> errs s' = errs s
     \<and> outs s' = outs s @ new
     \<and> parser_lines new = map (\<lambda>m. name (executor_of pf m)) (pre @ [m])"
proof -
  from run_executors_fail_split [OF assms] obtain pre m post mid where
    sp: "ms = pre @ m # post"
      "run_executors pf pre buffers xo it bc lc s = (None, mid)"
      "perform_mode pf m buffers xo it bc lc mid = (Some e, s')"
    by blast
  from run_executors_success [OF sp(2)] obtain n1 where
    p: "errs mid = errs s" "outs mid = outs s @ n1"
      "parser_lines n1 = map (\<lambda>m. name (executor_of pf m)) pre"
    by blast
  have e2: "errs s' = errs mid"
    using sp(3) by (rule perform_mode_outs(1))
  obtain n2 where o2: "outs s' = outs mid @ n2" "parser_lines n2 = [name (executor_of pf m)]"
    using perform_mode_outs(2) [OF sp(3)] by blast
  have a: "outs s' = outs s @ (n1 @ n2)"
    using p(2) o2(1) by simp
  have b: "parser_lines (n1 @ n2) = map (\<lambda>m. name (executor_of pf m)) (pre @ [m])"
    using p(3) o2(2) by (simp add: parser_lines_append)
  have c: "errs s' = errs s"
    using e2 p(1) by simp
  show ?thesis
    using sp a b c by blast
qed

lemma for_each_path_total:
  "(\<forall>p \<in> set ps. \<forall>bs. g p bs \<noteq> None) \<Longrightarrow> for_each_path g ps bs \<noteq> None"
  by (induction ps arbitrary: bs) (auto split: option.splits)

lemma load_total:
  assumes fs: "\<forall>p. is_directory pf p \<longrightarrow> (\<forall>q \<in> set (directory_entries pf p). rank q < rank p)"
  shows "rank p < d \<Longrightarrow> loadSwiftFilesRecursively d pf p bs \<noteq> None"
proof (induction d arbitrary: p bs)
  case 0
  then show ?case by simp
next
  case (Suc d)
  show ?case
  proof (cases "is_directory pf p")
    case False
    then have "\<exists>r. loadSwiftFilesRecursively (Suc d) pf p bs = Some r"
      using load_non_directory [of pf p d bs] by blast
    then show ?thesis
      by auto
  next
    case True
    have "\<forall>q \<in> set (directory_entries pf p). \<forall>bs'. loadSwiftFilesRecursively d pf q bs' \<noteq> None"
    proof (intro ballI allI)
      fix q bs'
      assume "q \<in> set (directory_entries pf p)"
      with fs True have "rank q < rank p"
        by blast
      with Suc.prems have "rank q < d"
        by simp
      then show "loadSwiftFilesRecursively d pf q bs' \<noteq> None"
        by (rule Suc.IH)
    qed
    then have "for_each_path (\<lambda>p bs. loadSwiftFilesRecursively d pf p bs)
        (directory_entries pf p) bs \<noteq> None"
      by (rule for_each_path_total)
    with True show ?thesis
      by simp
  qed
qed

lemma loadSources_total:
  assumes fs: "\<forall>p. is_directory pf p \<longrightarrow> (\<forall>q \<in> set (directory_entries pf p). rank q < rank p)"
    and deep: "\<forall>p \<in> set paths. rank p < depth"
  shows "\<exists>buffers. loadSources depth pf paths bs = Some buffers"
proof -
  have "\<forall>p \<in> set paths. \<forall>bs'. loadSwiftFilesRecursively depth pf p bs' \<noteq> None"
    using load_total [OF fs] deep by blast
  then have "for_each_path (\<lambda>p bs. loadSwiftFilesRecursively depth pf p bs) paths bs \<noteq> None"
    by (rule for_each_path_total)
  then show ?thesis
    by (simp add: loadSources_def)
qed

lemma main_unfold:
  assumes "loadSources depth pf (InputPaths options) [] = Some buffers"
    and "count_corpus buffers (0, 0) = (bc, lc)"
    and "run_executors pf (Executors options) buffers (exec_options options) (Iterations options)
           bc lc (after_preamble s options buffers bc lc) = (r, s2)"
  shows "swift_parse_test_main depth pf options s =
     Some (case r of
             Some e \<Rightarrow> (1, s2\<lparr>errs := errs s2 @ [''error: '' @ message e]\<rparr>)
           | None \<Rightarrow> (0, s2))"
  using assms(3) unfolding exec_options_def after_preamble_def
  by (rule main_eq [OF assms(1,2)])

lemma runs_succeed_run:
  "runs_succeed pf ms buffers xo it bc lc ss \<Longrightarrow>
   run_executors pf ms buffers xo it bc lc (ss ! 0) = (None, ss ! length ms)"
proof (induction ms arbitrary: ss)
  case Nil
  then show ?case by simp
next
  case (Cons m ms)
  from Cons.prems obtain s0 ss' where ss: "ss = s0 # ss'" and len: "length ss' = Suc (length ms)"
    by (cases ss) (auto simp: runs_succeed_def)
  from Cons.prems have step: "\<forall>i < Suc (length ms).
      perform_mode pf ((m # ms) ! i) buffers xo it bc lc (ss ! i) = (None, ss ! Suc i)"
    by (simp add: runs_succeed_def)
  from step have first: "perform_mode pf m buffers xo it bc lc s0 = (None, ss' ! 0)"
    using ss by auto
  have "\<forall>i < length ms. perform_mode pf (ms ! i) buffers xo it bc lc (ss' ! i) = (None, ss' ! Suc i)"
  proof (intro allI impI)
    fix i
    assume "i < length ms"
    then have "Suc i < Suc (length ms)"
      by simp
    with step have "perform_mode pf ((m # ms) ! Suc i) buffers xo it bc lc (ss ! Suc i) =
        (None, ss ! Suc (Suc i))"
      by blast
    then show "perform_mode pf (ms ! i) buffers xo it bc lc (ss' ! i) = (None, ss' ! Suc i)"
      using ss by simp
  qed
  with len have "runs_succeed pf ms buffers xo it bc lc ss'"
    by (simp add: runs_succeed_def)
  from Cons.IH [OF this] have "run_executors pf ms buffers xo it bc lc (ss' ! 0) = (None, ss' ! length ms)" .
  with first show ?case
    using ss by simp
qed

lemma run_executors_append:
  "run_executors pf (pre @ post) buffers xo it bc lc s =
     (case run_executors pf pre buffers xo it bc lc s of
        (None, mid) \<Rightarrow> run_executors pf post buffers xo it bc lc mid
      | (Some e, s') \<Rightarrow> (Some e, s'))"
  by (induction pre arbitrary: s) (auto split: prod.splits option.splits)

lemma runs_fail_run:
  assumes k: "k < length ms"
    and ok: "runs_succeed pf (take k ms) buffers xo it bc lc ss"
    and bad: "perform_mode pf (ms ! k) buffers xo it bc lc (ss ! k) = (Some e, s2)"
  shows "run_executors pf ms buffers xo it bc lc (ss ! 0) = (Some e, s2)"
proof -
  have lk: "length (take k ms) = k"
    using k by simp
  have pre: "run_executors pf (take k ms) buffers xo it bc lc (ss ! 0) = (None, ss ! k)"
    using runs_succeed_run [OF ok] lk by simp
  have split: "ms = take k ms @ ms ! k # drop (Suc k) ms"
    using k by (simp add: id_take_nth_drop)
  have "run_executors pf (take k ms @ ms ! k # drop (Suc k) ms) buffers xo it bc lc (ss ! 0) =
      (Some e, s2)"
    unfolding run_executors_append using pre bad by simp
  with split show ?thesis
    by simp
qed

lemma run_succeeds_seq:
  "run_executors pf ms buffers xo it bc lc s = (None, s') \<Longrightarrow>
   \<exists>ss. runs_succeed pf ms buffers xo it bc lc ss \<and> ss ! 0 = s \<and> ss ! length ms = s'"
proof (induction ms arbitrary: s)
  case Nil
  then have "runs_succeed pf [] buffers xo it bc lc [s] \<and> [s] ! 0 = s \<and> [s] ! length ([] :: Executor list) = s'"
    by (simp add: runs_succeed_def)
  then show ?case by blast
next
  case (Cons m ms)
  obtain r1 s1 where pm: "perform_mode pf m buffers xo it bc lc s = (r1, s1)"
    by (cases "perform_mode pf m buffers xo it bc lc s")
  have r1: "r1 = None"
    using pm Cons.prems by (cases r1) simp_all
  with pm Cons.prems have "run_executors pf ms buffers xo it bc lc s1 = (None, s')"
    by simp
  from Cons.IH [OF this] obtain ss where
    ih: "runs_succeed pf ms buffers xo it bc lc ss" "ss ! 0 = s1" "ss ! length ms = s'"
    by blast
  have "\<forall>i < length (m # ms).
      perform_mode pf ((m # ms) ! i) buffers xo it bc lc ((s # ss) ! i) = (None, (s # ss) ! Suc i)"
  proof (intro allI impI)
    fix i
    assume i: "i < length (m # ms)"
    show "perform_mode pf ((m # ms) ! i) buffers xo it bc lc ((s # ss) ! i) = (None, (s # ss) ! Suc i)"
    proof (cases i)
      case 0
      then show ?thesis using pm r1 ih(2) by simp
    next
      case (Suc j)
      with i have "j < length ms" by simp
      with ih(1) have "perform_mode pf (ms ! j) buffers xo it bc lc (ss ! j) = (None, ss ! Suc j)"
        by (simp add: runs_succeed_def)
      with Suc show ?thesis by simp
    qed
  qed
  moreover have "length (s # ss) = Suc (length (m # ms))"
    using ih(1) by (simp add: runs_succeed_def)
  ultimately have "runs_succeed pf (m # ms) buffers xo it bc lc (s # ss)"
    by (simp add: runs_succeed_def)
  moreover have "(s # ss) ! 0 = s" "(s # ss) ! length (m # ms) = s'"
    using ih(3) by simp_all
  ultimately show ?case by blast
qed


lemma written_after_preamble:
  assumes "outs s2 = outs (after_preamble s options buffers bc lc) @ new"
  shows "parser_lines (written s s2) = parser_lines new"
    and "take 4 (written s s2) =
      [FileCount (length buffers), TotalBytes bc, TotalLines lc, IterationsLine (Iterations options)]"
    and "drop 4 (written s s2) = new"
  using assms by (simp_all add: written_def after_preamble_def)

subsection \<open>The driver: order, first failure, exit status\<close>

text \<open>
  Claim C5. On a file system whose directories are well-founded, with a bound on the depth
  above the rank of every input path, loading the corpus returns and
  \<^verbatim>\<open>swift_parse_test_main\<close> runs the selected executors in the order of the command line.
  If the run of every selected executor, each started in the state that the run before it
  left, returns success, the exit status is 0, the final state is the one the last run
  left, nothing is written to the error stream and the \<^verbatim>\<open>parser:\<close> lines name all the
  executors, in that order. If the runs of the first \<open>k\<close> executors return success and
  the run of the next one returns an error \<open>e\<close>, the exit status is 1 and the final
  state is the one that failing run left, but for the line \<open>error: \<close> followed by the
  message of \<open>e\<close> added to the error stream: the executors after it are not run, and the
  \<^verbatim>\<open>parser:\<close> lines name the executors up to the failing one. One of the two cases
  always applies.
\<close>

theorem main_exit_status:
  fixes s :: "'x state" and rank :: "string \<Rightarrow> nat"
  assumes fs: "\<forall>p. is_directory pf p \<longrightarrow> (\<forall>q \<in> set (directory_entries pf p). rank q < rank p)"
    and deep: "\<forall>p \<in> set (InputPaths options). rank p < depth"
  shows "\<exists>buffers bc lc.
       loadSources depth pf (InputPaths options) [] = Some buffers
     \<and> count_corpus buffers (0, 0) = (bc, lc)
     \<and> (\<forall>ss. runs_succeed pf (Executors options) buffers (exec_options options)
                (Iterations options) bc lc ss
              \<and> ss ! 0 = after_preamble s options buffers bc lc \<longrightarrow>
            swift_parse_test_main depth pf options s =
              Some (0, ss ! length (Executors options))
          \<and> errs (ss ! length (Executors options)) = errs s
          \<and> parser_lines (written s (ss ! length (Executors options))) =
              map (\<lambda>m. name (executor_of pf m)) (Executors options))
     \<and> (\<forall>k ss e s2. k < length (Executors options)
              \<and> runs_succeed pf (take k (Executors options)) buffers (exec_options options)
                   (Iterations options) bc lc ss
              \<and> ss ! 0 = after_preamble s options buffers bc lc
              \<and> perform_mode pf (Executors options ! k) buffers (exec_options options)
                   (Iterations options) bc lc (ss ! k) = (Some e, s2) \<longrightarrow>
            swift_parse_test_main depth pf options s =
              Some (1, s2\<lparr>errs := errs s @ [''error: '' @ message e]\<rparr>)
          \<and> parser_lines (written s s2) =
              map (\<lambda>m. name (executor_of pf m)) (take (Suc k) (Executors options)))
     \<and> ((\<exists>ss. runs_succeed pf (Executors options) buffers (exec_options options)
                (Iterations options) bc lc ss
              \<and> ss ! 0 = after_preamble s options buffers bc lc)
        \<or> (\<exists>k ss e s2. k < length (Executors options)
              \<and> runs_succeed pf (take k (Executors options)) buffers (exec_options options)
                   (Iterations options) bc lc ss
              \<and> ss ! 0 = after_preamble s options buffers bc lc
              \<and> perform_mode pf (Executors options ! k) buffers (exec_options options)
                   (Iterations options) bc lc (ss ! k) = (Some e, s2)))"
proof -
  obtain buffers where load: "loadSources depth pf (InputPaths options) [] = Some buffers"
    using loadSources_total [OF fs deep] by blast
  obtain bc lc where count: "count_corpus buffers (0, 0) = (bc, lc)"
    by (cases "count_corpus buffers (0, 0)")
  define ms where "ms = Executors options"
  define xo where "xo = exec_options options"
  define it where "it = Iterations options"
  define s1 where "s1 = after_preamble s options buffers bc lc"
  have e1: "errs s1 = errs s"
    by (simp add: s1_def after_preamble_def)
  have ok: "swift_parse_test_main depth pf options s = Some (0, ss ! length ms)
          \<and> errs (ss ! length ms) = errs s
          \<and> parser_lines (written s (ss ! length ms)) = map (\<lambda>m. name (executor_of pf m)) ms"
    if rs: "runs_succeed pf ms buffers xo it bc lc ss" and z: "ss ! 0 = s1" for ss
  proof -
    have run: "run_executors pf ms buffers xo it bc lc s1 = (None, ss ! length ms)"
      using runs_succeed_run [OF rs] z by simp
    from run_executors_success [OF run] obtain new where
      p: "errs (ss ! length ms) = errs s1" "outs (ss ! length ms) = outs s1 @ new"
        "parser_lines new = map (\<lambda>m. name (executor_of pf m)) ms"
      by blast
    have "swift_parse_test_main depth pf options s = Some (0, ss ! length ms)"
      using main_unfold [OF load count run [unfolded ms_def xo_def it_def s1_def]]
      by (simp add: ms_def)
    moreover have "parser_lines (written s (ss ! length ms)) = map (\<lambda>m. name (executor_of pf m)) ms"
      using written_after_preamble(1) [OF p(2) [unfolded s1_def]] p(3) by simp
    ultimately show ?thesis
      using p(1) e1 by simp
  qed
  have bad: "swift_parse_test_main depth pf options s =
              Some (1, s2\<lparr>errs := errs s @ [''error: '' @ message e]\<rparr>)
          \<and> parser_lines (written s s2) = map (\<lambda>m. name (executor_of pf m)) (take (Suc k) ms)"
    if k: "k < length ms" and rs: "runs_succeed pf (take k ms) buffers xo it bc lc ss"
      and z: "ss ! 0 = s1"
      and pm: "perform_mode pf (ms ! k) buffers xo it bc lc (ss ! k) = (Some e, s2)" for k ss e s2
  proof -
    have run: "run_executors pf ms buffers xo it bc lc s1 = (Some e, s2)"
      using runs_fail_run [OF k rs pm] z by simp
    have lk: "length (take k ms) = k"
      using k by simp
    have pre: "run_executors pf (take k ms) buffers xo it bc lc s1 = (None, ss ! k)"
      using runs_succeed_run [OF rs] z lk by simp
    from run_executors_success [OF pre] obtain n1 where
      p: "errs (ss ! k) = errs s1" "outs (ss ! k) = outs s1 @ n1"
        "parser_lines n1 = map (\<lambda>m. name (executor_of pf m)) (take k ms)"
      by blast
    have e2: "errs s2 = errs (ss ! k)"
      using pm by (rule perform_mode_outs(1))
    obtain n2 where o2: "outs s2 = outs (ss ! k) @ n2" "parser_lines n2 = [name (executor_of pf (ms ! k))]"
      using perform_mode_outs(2) [OF pm] by blast
    have o: "outs s2 = outs s1 @ (n1 @ n2)"
      using p(2) o2(1) by simp
    have "take (Suc k) ms = take k ms @ [ms ! k]"
      using k by (rule take_Suc_conv_app_nth)
    then have pl: "parser_lines (n1 @ n2) = map (\<lambda>m. name (executor_of pf m)) (take (Suc k) ms)"
      using p(3) o2(2) by (simp add: parser_lines_append)
    have "swift_parse_test_main depth pf options s =
              Some (1, s2\<lparr>errs := errs s2 @ [''error: '' @ message e]\<rparr>)"
      using main_unfold [OF load count run [unfolded ms_def xo_def it_def s1_def]]
      by (simp add: ms_def)
    moreover have "errs s2 = errs s"
      using e2 p(1) e1 by simp
    moreover have "parser_lines (written s s2) = map (\<lambda>m. name (executor_of pf m)) (take (Suc k) ms)"
      using written_after_preamble(1) [OF o [unfolded s1_def]] pl by simp
    ultimately show ?thesis
      by simp
  qed
  have cases: "(\<exists>ss. runs_succeed pf ms buffers xo it bc lc ss \<and> ss ! 0 = s1)
        \<or> (\<exists>k ss e s2. k < length ms
              \<and> runs_succeed pf (take k ms) buffers xo it bc lc ss
              \<and> ss ! 0 = s1
              \<and> perform_mode pf (ms ! k) buffers xo it bc lc (ss ! k) = (Some e, s2))"
  proof -
    obtain r s2 where run: "run_executors pf ms buffers xo it bc lc s1 = (r, s2)"
      by (cases "run_executors pf ms buffers xo it bc lc s1")
    show ?thesis
    proof (cases r)
      case None
      with run_succeeds_seq [OF run [unfolded None]] show ?thesis
        by blast
    next
      case (Some e)
      from run_executors_fail_split [OF run [unfolded Some]] obtain pre m post mid where
        sp: "ms = pre @ m # post"
          "run_executors pf pre buffers xo it bc lc s1 = (None, mid)"
          "perform_mode pf m buffers xo it bc lc mid = (Some e, s2)"
        by blast
      from run_succeeds_seq [OF sp(2)] obtain ss where
        q: "runs_succeed pf pre buffers xo it bc lc ss" "ss ! 0 = s1" "ss ! length pre = mid"
        by blast
      have "length pre < length ms" "take (length pre) ms = pre" "ms ! length pre = m"
        using sp(1) by simp_all
      with q sp(3) show ?thesis
        by metis
    qed
  qed
  show ?thesis
    using load count ok bad cases
    unfolding ms_def xo_def it_def s1_def by blast
qed

lemma failing_load:
  "loadSources 2 example_platform (InputPaths failing_options) [] = Some [file_a, file_b]"
  by code_simp

lemma failing_count: "count_corpus [file_a, file_b] (0, 0) = (27, 3)"
  by code_simp

lemma example_fs:
  "\<forall>p. is_directory example_platform p \<longrightarrow>
     (\<forall>q \<in> set (directory_entries example_platform p). example_rank q < example_rank p)"
  by (simp add: example_platform_def example_rank_def)

lemma failing_first_run:
  "perform_mode example_platform LibParse [file_a, file_b] (exec_options failing_options)
     (Iterations failing_options) 27 3
     (after_preamble example_state failing_options [file_a, file_b] 27 3) =
   (None,
    \<lparr>env = \<lparr>cpu_clock = 1000000, steady_clock = 1200000000, hidden = ()\<rparr>,
     outs = [FileCount 2, TotalBytes 27, TotalLines 3, IterationsLine 1,
             Dashes, Parser ''libParse'', WallClockTimeMs 1200, CpuTimeMs 1000,
             ThroughputBytePerSec 27, ThroughputLinePerSec 3],
     errs = [], parse_calls = 2\<rparr>)"
  by code_simp

lemma failing_second_run:
  "perform_mode example_platform SwiftParser [file_a, file_b] (exec_options failing_options)
     (Iterations failing_options) 27 3
     \<lparr>env = \<lparr>cpu_clock = 1000000, steady_clock = 1200000000, hidden = ()\<rparr>,
      outs = [FileCount 2, TotalBytes 27, TotalLines 3, IterationsLine 1,
             Dashes, Parser ''libParse'', WallClockTimeMs 1200, CpuTimeMs 1000,
             ThroughputBytePerSec 27, ThroughputLinePerSec 3],
      errs = [], parse_calls = 2\<rparr> =
   (Some (StringError ''SwiftParser is not supported''),
    \<lparr>env = \<lparr>cpu_clock = 1000000, steady_clock = 1200000000, hidden = ()\<rparr>,
     outs = [FileCount 2, TotalBytes 27, TotalLines 3, IterationsLine 1,
             Dashes, Parser ''libParse'', WallClockTimeMs 1200, CpuTimeMs 1000,
             ThroughputBytePerSec 27, ThroughputLinePerSec 3,
             Dashes, Parser ''SwiftParser''],
     errs = [], parse_calls = 3\<rparr>)"
  by code_simp

lemma example_only_run:
  "perform_mode example_platform LibParse [file_a] (exec_options example_options)
     (Iterations example_options) 10 1
     (after_preamble example_state example_options [file_a] 10 1) =
   (None,
    \<lparr>env = \<lparr>cpu_clock = 1000000, steady_clock = 1200000000, hidden = ()\<rparr>,
     outs = [FileCount 1, TotalBytes 10, TotalLines 1, IterationsLine 2,
             Dashes, Parser ''libParse'', WallClockTimeMs 1200, CpuTimeMs 1000,
             ThroughputBytePerSec 10, ThroughputLinePerSec 1],
     errs = [], parse_calls = 2\<rparr>)"
  by code_simp

theorem main_exit_status_witness:
  "swift_parse_test_main 2 example_platform failing_options example_state =
     Some (1,
       \<lparr>env = \<lparr>cpu_clock = 1000000, steady_clock = 1200000000, hidden = ()\<rparr>,
        outs = [FileCount 2, TotalBytes 27, TotalLines 3, IterationsLine 1,
                Dashes, Parser ''libParse'', WallClockTimeMs 1200, CpuTimeMs 1000,
                ThroughputBytePerSec 27, ThroughputLinePerSec 3,
                Dashes, Parser ''SwiftParser''],
        errs = [''error: SwiftParser is not supported''], parse_calls = 3\<rparr>)
   \<and> swift_parse_test_main 2 example_platform example_options example_state =
     Some (0,
       \<lparr>env = \<lparr>cpu_clock = 1000000, steady_clock = 1200000000, hidden = ()\<rparr>,
        outs = [FileCount 1, TotalBytes 10, TotalLines 1, IterationsLine 2,
                Dashes, Parser ''libParse'', WallClockTimeMs 1200, CpuTimeMs 1000,
                ThroughputBytePerSec 10, ThroughputLinePerSec 1],
        errs = [], parse_calls = 2\<rparr>)"
proof -
  have e: "errs example_state = []"
    by (simp add: example_state_def)
  have d1: "\<forall>p \<in> set (InputPaths failing_options). example_rank p < 2"
    by (simp add: failing_options_def example_rank_def)
  have d2: "\<forall>p \<in> set (InputPaths example_options). example_rank p < 2"
    by (simp add: example_options_def example_rank_def)
  from main_exit_status [OF example_fs d1, where s = example_state]
  obtain buffers bc lc where
    l: "loadSources 2 example_platform (InputPaths failing_options) [] = Some buffers"
    and c: "count_corpus buffers (0, 0) = (bc, lc)"
    and bad: "\<forall>k ss e s2. k < length (Executors failing_options)
              \<and> runs_succeed example_platform (take k (Executors failing_options)) buffers
                   (exec_options failing_options) (Iterations failing_options) bc lc ss
              \<and> ss ! 0 = after_preamble example_state failing_options buffers bc lc
              \<and> perform_mode example_platform (Executors failing_options ! k) buffers
                   (exec_options failing_options) (Iterations failing_options) bc lc (ss ! k) =
                   (Some e, s2) \<longrightarrow>
            swift_parse_test_main 2 example_platform failing_options example_state =
              Some (1, s2\<lparr>errs := errs example_state @ [''error: '' @ message e]\<rparr>)
          \<and> parser_lines (written example_state s2) =
              map (\<lambda>m. name (executor_of example_platform m)) (take (Suc k) (Executors failing_options))"
    by blast
  have b: "buffers = [file_a, file_b]"
    using l failing_load by simp
  have bl: "bc = 27" "lc = 3"
    using c failing_count unfolding b by simp_all
  have ms: "Executors failing_options = [LibParse, SwiftParser, LibParse]"
    by (simp add: failing_options_def)
  have rs: "runs_succeed example_platform (take (Suc 0) (Executors failing_options)) [file_a, file_b]
      (exec_options failing_options) (Iterations failing_options) 27 3
      [after_preamble example_state failing_options [file_a, file_b] 27 3,
       \<lparr>env = \<lparr>cpu_clock = 1000000, steady_clock = 1200000000, hidden = ()\<rparr>,
        outs = [FileCount 2, TotalBytes 27, TotalLines 3, IterationsLine 1,
             Dashes, Parser ''libParse'', WallClockTimeMs 1200, CpuTimeMs 1000,
             ThroughputBytePerSec 27, ThroughputLinePerSec 3],
        errs = [], parse_calls = 2\<rparr>]"
    unfolding ms runs_succeed_def using failing_first_run by simp
  have first: "swift_parse_test_main 2 example_platform failing_options example_state =
     Some (1,
       \<lparr>env = \<lparr>cpu_clock = 1000000, steady_clock = 1200000000, hidden = ()\<rparr>,
        outs = [FileCount 2, TotalBytes 27, TotalLines 3, IterationsLine 1,
                Dashes, Parser ''libParse'', WallClockTimeMs 1200, CpuTimeMs 1000,
                ThroughputBytePerSec 27, ThroughputLinePerSec 3,
                Dashes, Parser ''SwiftParser''],
        errs = [''error: SwiftParser is not supported''], parse_calls = 3\<rparr>)"
    using bad [unfolded b bl, rule_format, of "Suc 0" _ "StringError ''SwiftParser is not supported''",
        OF conjI [OF _ conjI [OF rs conjI [OF _ _]]]]
      failing_second_run e
    by (simp add: ms)
  from main_exit_status [OF example_fs d2, where s = example_state]
  obtain buffers' bc' lc' where
    l': "loadSources 2 example_platform (InputPaths example_options) [] = Some buffers'"
    and c': "count_corpus buffers' (0, 0) = (bc', lc')"
    and ok: "\<forall>ss. runs_succeed example_platform (Executors example_options) buffers'
                (exec_options example_options) (Iterations example_options) bc' lc' ss
              \<and> ss ! 0 = after_preamble example_state example_options buffers' bc' lc' \<longrightarrow>
            swift_parse_test_main 2 example_platform example_options example_state =
              Some (0, ss ! length (Executors example_options))
          \<and> errs (ss ! length (Executors example_options)) = errs example_state
          \<and> parser_lines (written example_state (ss ! length (Executors example_options))) =
              map (\<lambda>m. name (executor_of example_platform m)) (Executors example_options)"
    by blast
  have b': "buffers' = [file_a]"
    using l' example_load by simp
  have bl': "bc' = 10" "lc' = 1"
    using c' example_count unfolding b' by simp_all
  have ms': "Executors example_options = [LibParse]"
    by (simp add: example_options_def)
  have rs': "runs_succeed example_platform (Executors example_options) [file_a]
      (exec_options example_options) (Iterations example_options) 10 1
      [after_preamble example_state example_options [file_a] 10 1,
       \<lparr>env = \<lparr>cpu_clock = 1000000, steady_clock = 1200000000, hidden = ()\<rparr>,
        outs = [FileCount 1, TotalBytes 10, TotalLines 1, IterationsLine 2,
             Dashes, Parser ''libParse'', WallClockTimeMs 1200, CpuTimeMs 1000,
             ThroughputBytePerSec 10, ThroughputLinePerSec 1],
        errs = [], parse_calls = 2\<rparr>]"
    unfolding ms' runs_succeed_def using example_only_run by simp
  have second: "swift_parse_test_main 2 example_platform example_options example_state =
     Some (0,
       \<lparr>env = \<lparr>cpu_clock = 1000000, steady_clock = 1200000000, hidden = ()\<rparr>,
        outs = [FileCount 1, TotalBytes 10, TotalLines 1, IterationsLine 2,
                Dashes, Parser ''libParse'', WallClockTimeMs 1200, CpuTimeMs 1000,
                ThroughputBytePerSec 10, ThroughputLinePerSec 1],
        errs = [], parse_calls = 2\<rparr>)"
    using ok [unfolded b' bl', rule_format, OF conjI [OF rs']]
    by (simp add: ms')
  show ?thesis
    using first second by simp
qed

lemma count_corpus_acc:
  "count_corpus bs (b0, l0) =
     (b0 + word_of_nat (sum_list (map getBufferSize bs)),
      l0 + word_of_nat (sum_list (map count_newlines bs)))"
  by (induction bs arbitrary: b0 l0) (simp_all add: algebra_simps)

lemma unat_ucast_times_den:
  fixes w :: "32 word"
  shows "unat ((ucast w :: 64 word) * word_of_int period_den) = unat w * 1000000000"
proof -
  have u: "unat (ucast w :: 64 word) = unat w"
    by transfer simp
  have d: "unat (word_of_int period_den :: 64 word) = 1000000000"
    by (simp add: period_den_def)
  have "unat w < 2 ^ LENGTH(32)"
    by (rule unsigned_less)
  then have "unat w < 2 ^ 32"
    by simp
  then have "unat w * 1000000000 < 2 ^ 32 * 1000000000"
    by simp
  also have "\<dots> < (2 :: nat) ^ 64"
    by simp
  finally have lt: "unat w * 1000000000 < 2 ^ LENGTH(64)"
    by simp
  have "unat ((ucast w :: 64 word) * word_of_int period_den) =
      unat (ucast w :: 64 word) * unat (word_of_int period_den :: 64 word) mod 2 ^ LENGTH(64)"
    by (rule unat_word_ariths(2))
  also have "\<dots> = unat w * 1000000000"
    unfolding u d using lt by simp
  finally show ?thesis .
qed

lemma run_executors_outs:
  assumes "run_executors pf ms buffers xo it bc lc s = (r, s')"
  shows "\<exists>new. outs s' = outs s @ new"
proof (cases r)
  case None
  then show ?thesis
    using run_executors_success assms by blast
next
  case (Some e)
  then show ?thesis
    using run_executors_failure assms by blast
qed

lemma unat_word_of_int_64:
  "0 \<le> c \<Longrightarrow> c < 2 ^ 63 \<Longrightarrow> unat (word_of_int c :: 64 word) = nat c"
proof -
  assume a: "0 \<le> c" "c < 2 ^ 63"
  have "(2 :: int) ^ 63 < 2 ^ 64"
    by simp
  with a have "c < 2 ^ 64"
    by linarith
  with a(1) have "c mod 2 ^ 64 = c"
    by simp
  then have "uint (word_of_int c :: 64 word) = c"
    by (simp add: uint_word_of_int)
  then show ?thesis
    by (simp add: unat_eq_nat_uint)
qed

lemma throughput_value:
  fixes w :: "32 word"
  assumes "0 < c" and "c < 2 ^ 63"
  shows "unat ((ucast w :: 64 word) * word_of_int period_den div word_of_int c) =
     unat w * 1000000000 div nat c"
proof -
  have "unat ((ucast w :: 64 word) * word_of_int period_den div word_of_int c) =
      unat ((ucast w :: 64 word) * word_of_int period_den) div unat (word_of_int c :: 64 word)"
    by (rule unat_div)
  also have "\<dots> = unat w * 1000000000 div nat c"
    using assms by (simp add: unat_ucast_times_den unat_word_of_int_64)
  finally show ?thesis .
qed

lemma perform_mode_throughput:
  fixes s0 :: "'x state"
  assumes f: "f = perform_loops (CLOCKS_PER_SEC pf) (executor_of pf m) buffers xo it s0"
    and ok: "err f = None" and pos: "0 < cDuration f" and small: "cDuration f < 2 ^ 63"
  shows "\<exists>B L. written s0 (snd (perform_mode pf m buffers xo it bc lc s0)) =
        [Dashes, Parser (name (executor_of pf m)),
         WallClockTimeMs (duration_cast_ms (tDuration f)),
         CpuTimeMs (duration_cast_ms (cDuration f)),
         ThroughputBytePerSec B, ThroughputLinePerSec L]
      \<and> unat B = unat bc * 1000000000 div nat (cDuration f)
      \<and> unat L = unat lc * 1000000000 div nat (cDuration f)"
proof -
  have "written s0 (snd (perform_mode pf m buffers xo it bc lc s0)) =
        [Dashes, Parser (name (executor_of pf m)),
         WallClockTimeMs (duration_cast_ms (tDuration f)),
         CpuTimeMs (duration_cast_ms (cDuration f)),
         ThroughputBytePerSec (ucast bc * word_of_int period_den div word_of_int (cDuration f)),
         ThroughputLinePerSec (ucast lc * word_of_int period_den div word_of_int (cDuration f))]"
    unfolding perform_mode_eq perform_written [OF f] using ok pos by simp
  then show ?thesis
    using throughput_value [OF pos small] by blast
qed


lemma main_preamble:
  fixes s :: "'x state"
  assumes load: "loadSources depth pf (InputPaths options) [] = Some buffers"
    and count: "count_corpus buffers (0, 0) = (bc, lc)"
  shows "\<exists>status s'. swift_parse_test_main depth pf options s = Some (status, s')
           \<and> take 4 (written s s') =
               [FileCount (length buffers), TotalBytes bc, TotalLines lc,
                IterationsLine (Iterations options)]"
proof -
  obtain r s2 where run: "run_executors pf (Executors options) buffers (exec_options options)
      (Iterations options) bc lc (after_preamble s options buffers bc lc) = (r, s2)"
    by (cases "run_executors pf (Executors options) buffers (exec_options options)
      (Iterations options) bc lc (after_preamble s options buffers bc lc)")
  from run_executors_outs [OF run] obtain new where
    o: "outs s2 = outs (after_preamble s options buffers bc lc) @ new"
    by blast
  note m = main_unfold [OF load count run]
  show ?thesis
  proof (cases r)
    case None
    with m have "swift_parse_test_main depth pf options s = Some (0, s2)"
      by simp
    with written_after_preamble(2) [OF o] show ?thesis
      by blast
  next
    case (Some e)
    have o': "outs (s2\<lparr>errs := errs s2 @ [''error: '' @ message e]\<rparr>) =
        outs (after_preamble s options buffers bc lc) @ new"
      using o by simp
    from Some m have "swift_parse_test_main depth pf options s =
        Some (1, s2\<lparr>errs := errs s2 @ [''error: '' @ message e]\<rparr>)"
      by simp
    with written_after_preamble(2) [OF o'] show ?thesis
      by blast
  qed
qed

lemma main_first_report:
  fixes s :: "'x state"
  assumes load: "loadSources depth pf (InputPaths options) [] = Some buffers"
    and count: "count_corpus buffers (0, 0) = (bc, lc)"
    and ms: "Executors options = m # rest"
    and f: "f = perform_loops (CLOCKS_PER_SEC pf) (executor_of pf m) buffers (exec_options options)
              (Iterations options) (after_preamble s options buffers bc lc)"
    and ok: "err f = None" and pos: "0 < cDuration f" and small: "cDuration f < 2 ^ 63"
  shows "\<exists>status s' B L. swift_parse_test_main depth pf options s = Some (status, s')
      \<and> take 6 (drop 4 (written s s')) =
        [Dashes, Parser (name (executor_of pf m)),
         WallClockTimeMs (duration_cast_ms (tDuration f)),
         CpuTimeMs (duration_cast_ms (cDuration f)),
         ThroughputBytePerSec B, ThroughputLinePerSec L]
      \<and> unat B = unat bc * 1000000000 div nat (cDuration f)
      \<and> unat L = unat lc * 1000000000 div nat (cDuration f)"
proof -
  define s1 where "s1 = after_preamble s options buffers bc lc"
  define xo where "xo = exec_options options"
  define it where "it = Iterations options"
  obtain r1 s1' where pm: "perform_mode pf m buffers xo it bc lc s1 = (r1, s1')"
    by (cases "perform_mode pf m buffers xo it bc lc s1")
  have f': "f = perform_loops (CLOCKS_PER_SEC pf) (executor_of pf m) buffers xo it s1"
    using f by (simp add: s1_def xo_def it_def)
  have "r1 = err f"
    using pm unfolding perform_mode_eq f' by (metis fst_conv perform_fst)
  with ok have r1: "r1 = None"
    by simp
  have s1': "s1' = snd (perform_mode pf m buffers xo it bc lc s1)"
    using pm by simp
  from perform_mode_throughput [OF f' ok pos small, of bc lc] obtain B L where
    w: "written s1 s1' =
        [Dashes, Parser (name (executor_of pf m)),
         WallClockTimeMs (duration_cast_ms (tDuration f)),
         CpuTimeMs (duration_cast_ms (cDuration f)),
         ThroughputBytePerSec B, ThroughputLinePerSec L]"
      and v: "unat B = unat bc * 1000000000 div nat (cDuration f)"
        "unat L = unat lc * 1000000000 div nat (cDuration f)"
    unfolding s1' by blast
  obtain n1 where n1: "outs s1' = outs s1 @ n1"
    using perform_mode_outs(2) [OF pm] by blast
  then have "written s1 s1' = n1"
    by (rule written_append)
  with w n1 have o1: "outs s1' = outs s1 @
        [Dashes, Parser (name (executor_of pf m)),
         WallClockTimeMs (duration_cast_ms (tDuration f)),
         CpuTimeMs (duration_cast_ms (cDuration f)),
         ThroughputBytePerSec B, ThroughputLinePerSec L]"
    by simp
  obtain r s2 where rest: "run_executors pf rest buffers xo it bc lc s1' = (r, s2)"
    by (cases "run_executors pf rest buffers xo it bc lc s1'")
  from run_executors_outs [OF rest] obtain more where more: "outs s2 = outs s1' @ more"
    by blast
  have run: "run_executors pf (Executors options) buffers (exec_options options)
      (Iterations options) bc lc (after_preamble s options buffers bc lc) = (r, s2)"
    unfolding ms using pm r1 rest by (simp add: s1_def xo_def it_def)
  have o: "outs s2 = outs (after_preamble s options buffers bc lc) @
        ([Dashes, Parser (name (executor_of pf m)),
         WallClockTimeMs (duration_cast_ms (tDuration f)),
         CpuTimeMs (duration_cast_ms (cDuration f)),
         ThroughputBytePerSec B, ThroughputLinePerSec L] @ more)"
    using o1 more by (simp add: s1_def)
  note m = main_unfold [OF load count run]
  show ?thesis
  proof (cases r)
    case None
    with m have "swift_parse_test_main depth pf options s = Some (0, s2)"
      by simp
    moreover have "take 6 (drop 4 (written s s2)) =
        [Dashes, Parser (name (executor_of pf m)),
         WallClockTimeMs (duration_cast_ms (tDuration f)),
         CpuTimeMs (duration_cast_ms (cDuration f)),
         ThroughputBytePerSec B, ThroughputLinePerSec L]"
      unfolding written_after_preamble(3) [OF o] by simp
    ultimately show ?thesis
      using v by blast
  next
    case (Some e)
    have o': "outs (s2\<lparr>errs := errs s2 @ [''error: '' @ message e]\<rparr>) =
        outs (after_preamble s options buffers bc lc) @
        ([Dashes, Parser (name (executor_of pf m)),
         WallClockTimeMs (duration_cast_ms (tDuration f)),
         CpuTimeMs (duration_cast_ms (cDuration f)),
         ThroughputBytePerSec B, ThroughputLinePerSec L] @ more)"
      using o by simp
    from Some m have "swift_parse_test_main depth pf options s =
        Some (1, s2\<lparr>errs := errs s2 @ [''error: '' @ message e]\<rparr>)"
      by simp
    moreover have "take 6 (drop 4 (written s (s2\<lparr>errs := errs s2 @ [''error: '' @ message e]\<rparr>))) =
        [Dashes, Parser (name (executor_of pf m)),
         WallClockTimeMs (duration_cast_ms (tDuration f)),
         CpuTimeMs (duration_cast_ms (cDuration f)),
         ThroughputBytePerSec B, ThroughputLinePerSec L]"
      unfolding written_after_preamble(3) [OF o'] by simp
    ultimately show ?thesis
      using v by blast
  qed
qed

subsection \<open>The totals of the corpus\<close>

text \<open>
  Claim C9. \<^verbatim>\<open>byteCount\<close> and \<^verbatim>\<open>lineCount\<close> are 32-bit unsigned integers: what the driver
  adds up and writes in the preamble is the sum of the sizes, and the sum of the numbers of
  line feeds, of the buffers modulo \<open>2\<^sup>3\<^sup>2\<close>. These residues are also the numerators of the
  throughputs: every run that the driver starts and that completes with a CPU time above
  zero writes, as its byte and line throughput, the residue times \<open>10\<^sup>9\<close> divided by the count
  of nanoseconds of CPU time, and these are the lines the driver's output holds for its
  first executor.
\<close>

theorem corpus_totals_wrap:
  fixes s :: "'x state" and rank :: "string \<Rightarrow> nat"
  assumes fs: "\<forall>p. is_directory pf p \<longrightarrow> (\<forall>q \<in> set (directory_entries pf p). rank q < rank p)"
    and deep: "\<forall>p \<in> set (InputPaths options). rank p < depth"
  shows "\<exists>buffers bc lc.
       loadSources depth pf (InputPaths options) [] = Some buffers
     \<and> count_corpus buffers (0, 0) = (bc, lc)
     \<and> unat bc = sum_list (map getBufferSize buffers) mod 2 ^ 32
     \<and> unat lc = sum_list (map count_newlines buffers) mod 2 ^ 32
     \<and> (\<exists>status s'. swift_parse_test_main depth pf options s = Some (status, s')
           \<and> take 4 (written s s') =
               [FileCount (length buffers), TotalBytes bc, TotalLines lc,
                IterationsLine (Iterations options)])
     \<and> (\<forall>m s0 f.
            f = perform_loops (CLOCKS_PER_SEC pf) (executor_of pf m) buffers (exec_options options)
                  (Iterations options) s0
          \<and> err f = None \<and> 0 < cDuration f \<and> cDuration f < 2 ^ 63 \<longrightarrow>
            (\<exists>B L. written s0 (snd (perform_mode pf m buffers (exec_options options)
                                      (Iterations options) bc lc s0)) =
                [Dashes, Parser (name (executor_of pf m)),
                 WallClockTimeMs (duration_cast_ms (tDuration f)),
                 CpuTimeMs (duration_cast_ms (cDuration f)),
                 ThroughputBytePerSec B, ThroughputLinePerSec L]
              \<and> unat B = (sum_list (map getBufferSize buffers) mod 2 ^ 32) * 1000000000
                           div nat (cDuration f)
              \<and> unat L = (sum_list (map count_newlines buffers) mod 2 ^ 32) * 1000000000
                           div nat (cDuration f)))
     \<and> (\<forall>m rest f.
            Executors options = m # rest
          \<and> f = perform_loops (CLOCKS_PER_SEC pf) (executor_of pf m) buffers (exec_options options)
                  (Iterations options) (after_preamble s options buffers bc lc)
          \<and> err f = None \<and> 0 < cDuration f \<and> cDuration f < 2 ^ 63 \<longrightarrow>
            (\<exists>status s' B L. swift_parse_test_main depth pf options s = Some (status, s')
              \<and> take 6 (drop 4 (written s s')) =
                [Dashes, Parser (name (executor_of pf m)),
                 WallClockTimeMs (duration_cast_ms (tDuration f)),
                 CpuTimeMs (duration_cast_ms (cDuration f)),
                 ThroughputBytePerSec B, ThroughputLinePerSec L]
              \<and> unat B = (sum_list (map getBufferSize buffers) mod 2 ^ 32) * 1000000000
                           div nat (cDuration f)
              \<and> unat L = (sum_list (map count_newlines buffers) mod 2 ^ 32) * 1000000000
                           div nat (cDuration f)))"
proof -
  obtain buffers where load: "loadSources depth pf (InputPaths options) [] = Some buffers"
    using loadSources_total [OF fs deep] by blast
  obtain bc lc where count: "count_corpus buffers (0, 0) = (bc, lc)"
    by (cases "count_corpus buffers (0, 0)")
  from count have bc: "bc = word_of_nat (sum_list (map getBufferSize buffers))"
    and lc: "lc = word_of_nat (sum_list (map count_newlines buffers))"
    by (simp_all add: count_corpus_acc)
  have ub: "unat bc = sum_list (map getBufferSize buffers) mod 2 ^ 32"
    unfolding bc by (simp add: unat_of_nat)
  have ul: "unat lc = sum_list (map count_newlines buffers) mod 2 ^ 32"
    unfolding lc by (simp add: unat_of_nat)
  note pre = main_preamble [OF load count, of s]
  have one: "\<forall>m s0 f.
            f = perform_loops (CLOCKS_PER_SEC pf) (executor_of pf m) buffers (exec_options options)
                  (Iterations options) s0
          \<and> err f = None \<and> 0 < cDuration f \<and> cDuration f < 2 ^ 63 \<longrightarrow>
            (\<exists>B L. written s0 (snd (perform_mode pf m buffers (exec_options options)
                                      (Iterations options) bc lc s0)) =
                [Dashes, Parser (name (executor_of pf m)),
                 WallClockTimeMs (duration_cast_ms (tDuration f)),
                 CpuTimeMs (duration_cast_ms (cDuration f)),
                 ThroughputBytePerSec B, ThroughputLinePerSec L]
              \<and> unat B = (sum_list (map getBufferSize buffers) mod 2 ^ 32) * 1000000000
                           div nat (cDuration f)
              \<and> unat L = (sum_list (map count_newlines buffers) mod 2 ^ 32) * 1000000000
                           div nat (cDuration f))"
    using perform_mode_throughput [of _ pf _ buffers "exec_options options" "Iterations options" _ bc lc]
    unfolding ub ul by blast
  have first: "\<forall>m rest f.
            Executors options = m # rest
          \<and> f = perform_loops (CLOCKS_PER_SEC pf) (executor_of pf m) buffers (exec_options options)
                  (Iterations options) (after_preamble s options buffers bc lc)
          \<and> err f = None \<and> 0 < cDuration f \<and> cDuration f < 2 ^ 63 \<longrightarrow>
            (\<exists>status s' B L. swift_parse_test_main depth pf options s = Some (status, s')
              \<and> take 6 (drop 4 (written s s')) =
                [Dashes, Parser (name (executor_of pf m)),
                 WallClockTimeMs (duration_cast_ms (tDuration f)),
                 CpuTimeMs (duration_cast_ms (cDuration f)),
                 ThroughputBytePerSec B, ThroughputLinePerSec L]
              \<and> unat B = (sum_list (map getBufferSize buffers) mod 2 ^ 32) * 1000000000
                           div nat (cDuration f)
              \<and> unat L = (sum_list (map count_newlines buffers) mod 2 ^ 32) * 1000000000
                           div nat (cDuration f))"
    using main_first_report [OF load count, of _ _ _ s]
    unfolding ub ul by blast
  show ?thesis
    using load count ub ul pre one first by blast
qed

lemma count_list_replicate: "count_list (replicate n x) x = n"
  by (induction n) simp_all

lemma huge_size: "getBufferSize file_huge = 4294967301"
  by (simp add: getBufferSize_def file_huge_def)

lemma huge_lines: "count_newlines file_huge = 4294967301"
  by (simp add: count_newlines_def file_huge_def count_list_replicate)

lemma huge_count: "count_corpus [file_huge] (0, 0) = (5, 5)"
proof -
  have "(word_of_nat 4294967301 :: 32 word) = 5"
    by simp
  then show ?thesis
    by (simp add: count_corpus_acc huge_size huge_lines)
qed

lemma huge_fs:
  "\<forall>p. is_directory huge_platform p \<longrightarrow>
     (\<forall>q \<in> set (directory_entries huge_platform p). (\<lambda>p. 0 :: nat) q < (\<lambda>p. 0 :: nat) p)"
  by (simp add: huge_platform_def)

lemma huge_load:
  "loadSources (Suc 0) huge_platform (InputPaths huge_options) [] = Some [file_huge]"
  by (simp add: loadSources_def huge_platform_def huge_options_def endswith_def)

lemma huge_loops:
  "perform_loops (CLOCKS_PER_SEC huge_platform) (executor_of huge_platform LibParse) [file_huge]
     (exec_options huge_options) (Iterations huge_options)
     (after_preamble example_state huge_options [file_huge] 5 5) =
   \<lparr>st = \<lparr>env = \<lparr>cpu_clock = 1000000, steady_clock = 1000000000, hidden = ()\<rparr>,
           outs = [FileCount 1, TotalBytes 5, TotalLines 5, IterationsLine 1,
                   Dashes, Parser ''libParse''],
           errs = [], parse_calls = 1\<rparr>,
     err = None, tDuration = 1000000000, cDuration = 1000000000,
     calls = [\<lparr>call_buffer = file_huge, call_wall = 1000000000, call_cpu = 1000000000,
               call_result = None\<rparr>]\<rparr>"
  by (simp add: perform_loops_def perform_enter_def perform_iterations.simps measure_body_def
      parse_body_def LibParseExecutor_def huge_platform_def huge_options_def exec_options_def
      after_preamble_def example_state_def clockMultiply_def cxx_sdiv_def period_den_def
      period_num_def Let_def)

lemma pick_loaded:
  assumes "\<exists>buffers bc lc. load = Some buffers \<and> count buffers = (bc, lc) \<and> R buffers bc lc"
    and "load = Some b0" and "count b0 = (c0, d0)"
  shows "R b0 c0 d0"
  using assms by auto


theorem corpus_totals_wrap_witness:
  "sum_list (map getBufferSize [file_huge]) = 4294967301
   \<and> sum_list (map count_newlines [file_huge]) = 4294967301
   \<and> loadSources (Suc 0) huge_platform (InputPaths huge_options) [] = Some [file_huge]
   \<and> count_corpus [file_huge] (0, 0) = (5, 5)
   \<and> (\<exists>status s' B L.
         swift_parse_test_main (Suc 0) huge_platform huge_options example_state = Some (status, s')
       \<and> take 4 (written example_state s') =
            [FileCount 1, TotalBytes 5, TotalLines 5, IterationsLine 1]
       \<and> take 6 (drop 4 (written example_state s')) =
            [Dashes, Parser ''libParse'', WallClockTimeMs 1000, CpuTimeMs 1000,
             ThroughputBytePerSec B, ThroughputLinePerSec L]
       \<and> unat B = 5 \<and> unat L = 5)"
proof -
  have deep: "\<forall>p \<in> set (InputPaths huge_options). (\<lambda>p. 0 :: nat) p < Suc 0"
    by simp
  note rest = pick_loaded [OF corpus_totals_wrap [OF huge_fs deep, where s = example_state]
      huge_load huge_count]
  note pre = rest [THEN conjunct2, THEN conjunct2, THEN conjunct1]
  note first = rest [THEN conjunct2, THEN conjunct2, THEN conjunct2, THEN conjunct2]
  have ms: "Executors huge_options = LibParse # []"
    by (simp add: huge_options_def)
  have it: "Iterations huge_options = 1"
    by (simp add: huge_options_def)
  have nm: "name (executor_of huge_platform LibParse) = ''libParse''"
    by (simp add: LibParseExecutor_def)
  have ms1: "duration_cast_ms 1000000000 = 1000"
    by (simp add: duration_cast_ms_def cxx_sdiv_def)
  have m: "(4294967301 :: nat) mod 2 ^ 32 = 5"
    by simp
  from pre obtain st1 s1 where
    p1: "swift_parse_test_main (Suc 0) huge_platform huge_options example_state = Some (st1, s1)"
      "take 4 (written example_state s1) = [FileCount 1, TotalBytes 5, TotalLines 5, IterationsLine 1]"
    unfolding it by (simp, blast)
  define f where "f = perform_loops (CLOCKS_PER_SEC huge_platform)
      (executor_of huge_platform LibParse) [file_huge] (exec_options huge_options)
      (Iterations huge_options) (after_preamble example_state huge_options [file_huge] 5 5)"
  have ef: "err f = None" and cf: "cDuration f = 1000000000" and tf: "tDuration f = 1000000000"
    unfolding f_def huge_loops by simp_all
  have small: "(1000000000 :: int) < 2 ^ 63"
    by simp
  have hyp: "Executors huge_options = LibParse # []
      \<and> f = perform_loops (CLOCKS_PER_SEC huge_platform) (executor_of huge_platform LibParse)
            [file_huge] (exec_options huge_options) (Iterations huge_options)
            (after_preamble example_state huge_options [file_huge] 5 5)
      \<and> err f = None \<and> 0 < cDuration f \<and> cDuration f < 2 ^ 63"
    using ms f_def ef small unfolding cf by simp
  note first' = first [rule_format, OF hyp]
  from first' obtain st2 s2 B L where
    q1: "swift_parse_test_main (Suc 0) huge_platform huge_options example_state = Some (st2, s2)"
    and q2: "take 6 (drop 4 (written example_state s2)) =
                [Dashes, Parser (name (executor_of huge_platform LibParse)),
                 WallClockTimeMs (duration_cast_ms (tDuration f)),
                 CpuTimeMs (duration_cast_ms (cDuration f)),
                 ThroughputBytePerSec B, ThroughputLinePerSec L]"
    and q3: "unat B = (sum_list (map getBufferSize [file_huge]) mod 2 ^ 32) * 1000000000
                           div nat (cDuration f)"
    and q4: "unat L = (sum_list (map count_newlines [file_huge]) mod 2 ^ 32) * 1000000000
                           div nat (cDuration f)"
    by blast
  have p2: "swift_parse_test_main (Suc 0) huge_platform huge_options example_state = Some (st2, s2)"
      "take 6 (drop 4 (written example_state s2)) =
            [Dashes, Parser ''libParse'', WallClockTimeMs 1000, CpuTimeMs 1000,
             ThroughputBytePerSec B, ThroughputLinePerSec L]"
      "unat B = 5" "unat L = 5"
  proof -
    show "swift_parse_test_main (Suc 0) huge_platform huge_options example_state = Some (st2, s2)"
      by (rule q1)
    show "take 6 (drop 4 (written example_state s2)) =
            [Dashes, Parser ''libParse'', WallClockTimeMs 1000, CpuTimeMs 1000,
             ThroughputBytePerSec B, ThroughputLinePerSec L]"
      using q2 unfolding cf tf nm ms1 .
    have n: "nat 1000000000 = 1000000000"
      by simp
    have d: "(5 :: nat) * 1000000000 div 1000000000 = 5"
      by simp
    show "unat B = 5"
      using q3 unfolding cf n by (simp add: huge_size m d)
    show "unat L = 5"
      using q4 unfolding cf n by (simp add: huge_lines m d)
  qed
  from p1(1) p2(1) have "s2 = s1"
    by simp
  with p1 p2 have "\<exists>status s' B L.
         swift_parse_test_main (Suc 0) huge_platform huge_options example_state = Some (status, s')
       \<and> take 4 (written example_state s') =
            [FileCount 1, TotalBytes 5, TotalLines 5, IterationsLine 1]
       \<and> take 6 (drop 4 (written example_state s')) =
            [Dashes, Parser ''libParse'', WallClockTimeMs 1000, CpuTimeMs 1000,
             ThroughputBytePerSec B, ThroughputLinePerSec L]
       \<and> unat B = 5 \<and> unat L = 5"
    by blast
  then show ?thesis
    using huge_size huge_lines huge_load huge_count by simp
qed

end
